theory Spec2Isabelle
  imports Main "HOL-Library.Sublist" "HOL-Library.AList" "HOL-Library.Char_ord"
    "HOL-Library.List_Lexorder"
begin

section \<open>Go library functions used by vaultx\<close>

subsection \<open>Package strings\<close>

text \<open>Go strings are byte sequences; \<open>len\<close> counts bytes, as \<open>length\<close> does on
  \<^typ>\<open>string\<close>.\<close>

definition HasPrefix :: "string \<Rightarrow> string \<Rightarrow> bool" where
  "HasPrefix s p = prefix p s"

definition HasSuffix :: "string \<Rightarrow> string \<Rightarrow> bool" where
  "HasSuffix s x = suffix x s"

definition TrimPrefix :: "string \<Rightarrow> string \<Rightarrow> string" where
  "TrimPrefix s p = (if HasPrefix s p then drop (length p) s else s)"

definition TrimSuffix :: "string \<Rightarrow> string \<Rightarrow> string" where
  "TrimSuffix s x = (if HasSuffix s x then take (length s - length x) s else s)"

fun Contains :: "string \<Rightarrow> string \<Rightarrow> bool" where
  "Contains [] sub = (sub = [])"
| "Contains (c # cs) sub = (prefix sub (c # cs) \<or> Contains cs sub)"

subsection \<open>Package path\<close>

text \<open>\<open>path.Clean\<close> by its documented rules: runs of slashes collapse, \<open>.\<close> elements
  vanish, an inner \<open>..\<close> removes the element before it, a \<open>..\<close> at the start of a rooted
  path vanishes, and the empty result is \<open>.\<close>.\<close>

fun split_slash :: "string \<Rightarrow> string list" where
  "split_slash [] = [[]]"
| "split_slash (c # cs) =
     (if c = CHR ''/'' then [] # split_slash cs
      else (case split_slash cs of [] \<Rightarrow> [[c]] | w # ws \<Rightarrow> (c # w) # ws))"

fun join_slash :: "string list \<Rightarrow> string" where
  "join_slash [] = []"
| "join_slash [e] = e"
| "join_slash (e # es) = e @ ''/'' @ join_slash es"

fun clean_elems :: "bool \<Rightarrow> string list \<Rightarrow> string list \<Rightarrow> string list" where
  "clean_elems rooted [] out = rev out"
| "clean_elems rooted (e # es) out =
     (if e = [] \<or> e = ''.'' then clean_elems rooted es out
      else if e = ''..'' then
        (case out of
           [] \<Rightarrow> clean_elems rooted es (if rooted then [] else [''..''])
         | e1 # below \<Rightarrow>
             if e1 = ''..'' then clean_elems rooted es (''..'' # out)
             else clean_elems rooted es below)
      else clean_elems rooted es (e # out))"

definition Clean :: "string \<Rightarrow> string" where
  "Clean p =
     (if p = [] then ''.''
      else let rooted = (hd p = CHR ''/'');
               body = join_slash (clean_elems rooted (split_slash p) [])
           in if rooted then CHR ''/'' # body
              else if body = [] then ''.'' else body)"

text \<open>\<open>path.Join\<close>: empty elements are ignored, the rest is joined by slashes and
  cleaned; when every element is empty the result is the empty string.\<close>

definition Join :: "string list \<Rightarrow> string" where
  "Join elem =
     (let parts = filter (\<lambda>e. e \<noteq> []) elem
      in if parts = [] then [] else Clean (join_slash parts))"

subsection \<open>Dynamic values and \<open>fmt.Sprintf("%v", _)\<close>\<close>

text \<open>A value of type \<open>interface{}\<close> as the Vault client decodes it: \<open>nil\<close>, a string, a
  \<open>map[string]interface{}\<close> (an association list), or a value of any other kind (bool,
  number, slice), kept as the text that \<open>%v\<close> prints for it.\<close>

datatype gvalue = GNil | GString string | GMap "(string \<times> gvalue) list" | GOther string

type_synonym gmap = "(string \<times> gvalue) list"

text \<open>Indexing a Go map: a missing key gives the zero value, \<open>nil\<close>.\<close>

definition gindex :: "gmap \<Rightarrow> string \<Rightarrow> gvalue" where
  "gindex m k = (case map_of m k of None \<Rightarrow> GNil | Some v \<Rightarrow> v)"

fun join_space :: "string list \<Rightarrow> string" where
  "join_space [] = []"
| "join_space [e] = e"
| "join_space (e # es) = e @ '' '' @ join_space es"

text \<open>\<open>%v\<close>: \<open>nil\<close> prints as \<open><nil>\<close>, a string as itself, a map as
  \<open>map[k:v ...]\<close> with the keys sorted.\<close>

primrec Sprintf_v :: "gvalue \<Rightarrow> string" where
  "Sprintf_v GNil = ''<nil>''"
| "Sprintf_v (GString s) = s"
| "Sprintf_v (GOther shown) = shown"
| "Sprintf_v (GMap kvs) =
     ''map['' @ join_space (map (\<lambda>kv. fst kv @ '':'' @ snd kv)
                 (sort_key fst (map (map_prod id Sprintf_v) kvs))) @ '']''"

section \<open>Effects: log lines, write requests, process outcomes\<close>

datatype error =
    Lib string \<comment> \<open>an error returned by the Vault client, with its message\<close>
  | New string \<comment> \<open>\<open>errors.New\<close> and \<open>fmt.Errorf\<close> without a wrapped cause\<close>
  | ListFailed string string error
      \<comment> \<open>\<open>fmt.Errorf("kv <v> list failed at path %q: %w", path, cause)\<close>\<close>

datatype level = LInfo | LWarn | LError

datatype logval = S string | E error | I int

datatype entry = Log level string "(string \<times> logval) list"

text \<open>A write request sent to a Vault connection: path, payload (\<open>None\<close> is a nil map),
  mount path.\<close>

datatype call =
    V1Write string "gmap option" string
  | V2Write string "gmap option" string

record trace =
  logs :: "entry list"
  writes :: "call list"

definition slog :: "level \<Rightarrow> string \<Rightarrow> (string \<times> logval) list \<Rightarrow> trace \<Rightarrow> trace" where
  "slog lv msg attrs t = t\<lparr>logs := logs t @ [Log lv msg attrs]\<rparr>"

definition sent :: "call \<Rightarrow> trace \<Rightarrow> trace" where
  "sent c t = t\<lparr>writes := writes t @ [c]\<rparr>"

text \<open>How a function call ends: it returns, the process exits (\<open>os.Exit\<close>), or the
  goroutine panics (nil dereference, failed type assertion).\<close>

datatype 'a outcome = Returns 'a | Exits int | Panics

section \<open>The Vault client\<close>

text \<open>The operations of \<open>*vault.Client\<close> that vaultx calls, each with Go's pair of a
  response pointer (\<open>None\<close> is nil) and an error (\<open>None\<close> is nil). Path comes first, the
  mount of \<open>vault.WithMountPath\<close> last. A list response is its \<open>Data.Keys\<close>, a read
  response its payload map, which may itself be nil; a v2 write response is its
  \<open>Data.Version\<close>.\<close>

record Client =
  MountsListSecretsEngines :: "gmap option \<times> string option"
  KvV1List :: "string \<Rightarrow> string \<Rightarrow> string list option \<times> string option"
  KvV2List :: "string \<Rightarrow> string \<Rightarrow> string list option \<times> string option"
  KvV1Read :: "string \<Rightarrow> string \<Rightarrow> gmap option option \<times> string option"
  KvV2Read :: "string \<Rightarrow> string \<Rightarrow> gmap option option \<times> string option"
  KvV1Write :: "string \<Rightarrow> gmap option \<Rightarrow> string \<Rightarrow> string option"
  KvV2Write :: "string \<Rightarrow> gmap option \<Rightarrow> string \<Rightarrow> int option \<times> string option"
  SetToken :: "string \<Rightarrow> string option"

text \<open>The context carries the client, or none.\<close>

type_synonym ctx = "Client option"

definition GetVaultClient :: "ctx \<Rightarrow> trace \<Rightarrow> Client option \<times> trace" where
  "GetVaultClient ctx t =
     (case ctx of
        None \<Rightarrow> (None, slog LError ''Vault client not found in context'' [] t)
      | Some client \<Rightarrow> (Some client, t))"

section \<open>secrets create\<close>

record MountInfo =
  MountPath :: string
  Version :: string

text \<open>A \<open>map[string]MountInfo\<close> is an association list in the order \<open>range\<close> visits it;
  Go leaves that order open, so nothing below may depend on it. Indexing a missing key
  gives the zero \<open>MountInfo\<close>.\<close>

type_synonym mounts = "(string \<times> MountInfo) list"

definition mindex :: "mounts \<Rightarrow> string \<Rightarrow> MountInfo" where
  "mindex ms k =
     (case map_of ms k of None \<Rightarrow> \<lparr>MountPath = [], Version = []\<rparr> | Some mi \<Rightarrow> mi)"

fun bestMatch_loop :: "string \<Rightarrow> string list \<Rightarrow> string \<Rightarrow> string" where
  "bestMatch_loop secretPath [] bestMatch = bestMatch"
| "bestMatch_loop secretPath (mount # rest) bestMatch =
     bestMatch_loop secretPath rest
       (if HasPrefix secretPath mount \<and> length mount > length bestMatch
        then mount else bestMatch)"

definition findMountForSecret ::
  "ctx \<Rightarrow> string \<Rightarrow> mounts \<Rightarrow> trace \<Rightarrow> (MountInfo \<times> string \<times> error option) \<times> trace" where
  "findMountForSecret ctx secretPath ms t =
     (case GetVaultClient ctx t of
        (None, t1) \<Rightarrow>
          ((\<lparr>MountPath = [], Version = []\<rparr>, [],
            Some (New ''vault client not found in context'')), t1)
      | (Some client, t1) \<Rightarrow>
          (let bestMatch = bestMatch_loop secretPath (map fst ms) [];
               relativePath = TrimPrefix secretPath bestMatch;
               relativePath = TrimSuffix relativePath ''/''
           in ((mindex ms bestMatch, relativePath, None), t1)))"

text \<open>\<open>GetSecretEngines\<close>: the loop over \<open>resp.Data\<close>, filling \<open>mounts\<close>.\<close>

fun GetSecretEngines_loop :: "gmap \<Rightarrow> mounts \<Rightarrow> trace \<Rightarrow> mounts \<times> trace" where
  "GetSecretEngines_loop [] ms t = (ms, t)"
| "GetSecretEngines_loop ((mountPath, raw) # rest) ms t =
     (case raw of
        GMap data \<Rightarrow>
          (let (version, t1) =
                 (case gindex data ''options'' of
                    GMap options \<Rightarrow>
                      (case gindex options ''version'' of
                         GString v \<Rightarrow>
                           (v, if v = [] then slog LWarn ''version not found'' [] t else t)
                       | _ \<Rightarrow> ([], t))
                  | _ \<Rightarrow> ([], t))
           in GetSecretEngines_loop rest
                (AList.update mountPath \<lparr>MountPath = mountPath, Version = version\<rparr> ms) t1)
      | _ \<Rightarrow>
          GetSecretEngines_loop rest ms
            (slog LWarn ''unexpected mount data format'' [(''mountPath'', S mountPath)] t))"

definition GetSecretEngines :: "ctx \<Rightarrow> trace \<Rightarrow> (mounts \<times> error option) outcome \<times> trace" where
  "GetSecretEngines ctx t =
     (case GetVaultClient ctx t of
        (None, t1) \<Rightarrow> (Returns ([], Some (New ''vault client not found in context'')), t1)
      | (Some client, t1) \<Rightarrow>
          (case MountsListSecretsEngines client of
             (resp, Some err) \<Rightarrow>
               (Returns ([], Some (Lib err)),
                slog LError ''Failed to list secret engines'' [(''error'', E (Lib err))] t1)
           | (None, None) \<Rightarrow> (Panics, t1)
           | (Some data, None) \<Rightarrow>
               (case GetSecretEngines_loop data [] t1 of
                  (ms, t2) \<Rightarrow> (Returns (ms, None), t2))))"

text \<open>What one pass through a loop body does next: go on to the next element, return
  from the function with an error, or panic.\<close>

datatype step = Next | Return error | Panic

text \<open>The body of the loop of \<open>CreateSecrets\<close> for one entry of the document.\<close>

definition CreateSecrets_body ::
  "ctx \<Rightarrow> Client \<Rightarrow> mounts \<Rightarrow> string \<times> gmap option \<Rightarrow> trace \<Rightarrow> step \<times> trace" where
  "CreateSecrets_body ctx client mountsMap entry t =
     (case entry of (secretPath, secretData) \<Rightarrow>
      (case findMountForSecret ctx secretPath mountsMap t of
         ((mountInfo, relativePath, Some err), t1) \<Rightarrow>
           (Next, slog LError ''mount not found for secret'' [(''path'', S secretPath)] t1)
       | ((mountInfo, relativePath, None), t1) \<Rightarrow>
           (let mount = TrimSuffix (MountPath mountInfo) ''/'' in
            if Version mountInfo = ''2'' then
              (let t2 = sent (V2Write relativePath secretData mount) t1 in
               case KvV2Write client relativePath secretData mount of
                 (resp, Some err) \<Rightarrow>
                   (Next, slog LError ''failed to write KV v2 secret''
                            [(''path'', S secretPath), (''error'', E (Lib err))] t2)
               | (None, None) \<Rightarrow> (Panic, t2)
               | (Some version, None) \<Rightarrow>
                   (Next, slog LInfo ''KV v2 secret written''
                            [(''path'', S secretPath), (''version'', I version)] t2))
            else if Version mountInfo = ''1'' then
              (let t2 = sent (V1Write relativePath secretData mount) t1 in
               case KvV1Write client relativePath secretData mount of
                 Some err \<Rightarrow>
                   (Next, slog LError ''failed to write KV v1 secret''
                            [(''path'', S secretPath), (''error'', E (Lib err))] t2)
               | None \<Rightarrow>
                   (Next, slog LInfo ''KV v1 secret written'' [(''path'', S secretPath)] t2))
            else
              (Next, slog LError ''unsupported KV version''
                       [(''version'', S (Version mountInfo)), (''path'', S secretPath)] t1))))"

fun CreateSecrets_loop ::
  "ctx \<Rightarrow> Client \<Rightarrow> mounts \<Rightarrow> (string \<times> gmap option) list \<Rightarrow> trace
   \<Rightarrow> error option outcome \<times> trace" where
  "CreateSecrets_loop ctx client mountsMap [] t = (Returns None, t)"
| "CreateSecrets_loop ctx client mountsMap (entry # rest) t =
     (case CreateSecrets_body ctx client mountsMap entry t of
        (Next, t1) \<Rightarrow> CreateSecrets_loop ctx client mountsMap rest t1
      | (Return err, t1) \<Rightarrow> (Returns (Some err), t1)
      | (Panic, t1) \<Rightarrow> (Panics, t1))"

text \<open>The process environment: variables, the file system, \<open>json.Unmarshal\<close> into a
  \<open>map[string]map[string]interface{}\<close> (in the order \<open>range\<close> visits it),
  \<open>vault.New\<close>, whose error the program drops (\<open>None\<close> is the nil client), and the
  check of the token that \<open>SetToken\<close> makes before it touches its client.\<close>

record env =
  Getenv :: "string \<Rightarrow> string"
  ReadFile :: "string \<Rightarrow> string \<times> string option"
  Unmarshal :: "string \<Rightarrow> (string \<times> gmap option) list \<times> string option"
  vault_New :: "string \<Rightarrow> Client option"
  validateToken :: "string \<Rightarrow> string option"

text \<open>The flags of a command, as \<open>cmd.String\<close> reads them.\<close>

record Command =
  source_mount :: string
  target_mount :: string
  from_file :: string

definition CreateSecrets ::
  "env \<Rightarrow> ctx \<Rightarrow> Command \<Rightarrow> trace \<Rightarrow> error option outcome \<times> trace" where
  "CreateSecrets os ctx cmd t =
     (case GetVaultClient ctx t of
        (None, t1) \<Rightarrow> (Returns (Some (New ''vault client not found in context'')), t1)
      | (Some client, t1) \<Rightarrow>
          (let filePath = from_file cmd in
           if filePath = [] then (Exits 1, slog LError ''--from-file flag is required'' [] t1)
           else
             (case ReadFile os filePath of
                (raw, Some err) \<Rightarrow>
                  (Exits 1, slog LError ''failed to load file'' [(''error'', E (Lib err))] t1)
              | (raw, None) \<Rightarrow>
                  (case Unmarshal os raw of
                     (secrets, Some err) \<Rightarrow>
                       (Exits 1,
                        slog LError ''invalid JSON structure'' [(''error'', E (Lib err))] t1)
                   | (secrets, None) \<Rightarrow>
                       (case GetSecretEngines ctx t1 of
                          (Panics, t2) \<Rightarrow> (Panics, t2)
                        | (Exits n, t2) \<Rightarrow> (Exits n, t2)
                        | (Returns (mountsMap, Some err), t2) \<Rightarrow>
                            (Exits 1,
                             slog LError ''unable to list KV secret engines''
                               [(''error'', E err)] t2)
                        | (Returns (mountsMap, None), t2) \<Rightarrow>
                            CreateSecrets_loop ctx client mountsMap secrets t2)))))"

section \<open>secrets copy\<close>

definition GetSourceMountVersion ::
  "ctx \<Rightarrow> Command \<Rightarrow> trace \<Rightarrow> (string \<times> error option) outcome \<times> trace" where
  "GetSourceMountVersion ctx cmd t =
     (case GetVaultClient ctx t of
        (None, t1) \<Rightarrow> (Panics, t1)
      | (Some client, t1) \<Rightarrow>
          (let sourceMount =
                 (if \<not> HasSuffix (source_mount cmd) ''/'' then source_mount cmd @ ''/''
                  else source_mount cmd)
           in case MountsListSecretsEngines client of (response, err) \<Rightarrow>
             (let t2 = (case err of
                          None \<Rightarrow> t1
                        | Some e \<Rightarrow>
                            slog LError ''Failed to list secret engines''
                              [(''error'', E (Lib e))] t1)
              in case response of
                   None \<Rightarrow> (Panics, t2)
                 | Some data \<Rightarrow>
                     (case gindex data sourceMount of
                        GMap mnt \<Rightarrow>
                          (case gindex mnt ''options'' of
                             GMap options \<Rightarrow>
                               (Returns (Sprintf_v (gindex options ''version''),
                                         map_option Lib err), t2)
                           | _ \<Rightarrow> (Panics, t2))
                      | _ \<Rightarrow> (Panics, t2)))))"

text \<open>The closure \<open>traverse\<close> of \<open>ListSecrets\<close>. Its captured variable \<open>secretsList\<close> is
  threaded through with the trace. Go puts no bound on the recursion and a server may
  list forever, so the depth of the recursion is bounded by a fuel argument: \<open>None\<close>
  means that the bound was too small.\<close>

type_synonym tstate = "string list \<times> trace"

fun for_keys ::
  "(string \<Rightarrow> tstate \<Rightarrow> (error option outcome \<times> tstate) option)
   \<Rightarrow> string \<Rightarrow> string \<Rightarrow> string list \<Rightarrow> tstate
   \<Rightarrow> (error option outcome \<times> tstate) option" where
  "for_keys rec sourceMount currentPath [] st = Some (Returns None, st)"
| "for_keys rec sourceMount currentPath (key # keys) st =
     (let full = Join [currentPath, key] in
      if HasSuffix key ''/'' then
        (case rec full st of
           None \<Rightarrow> None
         | Some (Returns None, st1) \<Rightarrow> for_keys rec sourceMount currentPath keys st1
         | Some (r, st1) \<Rightarrow> Some (r, st1))
      else
        (let finalPath = Join [sourceMount, full] in
         for_keys rec sourceMount currentPath keys (fst st @ [finalPath], snd st)))"

primrec traverse ::
  "nat \<Rightarrow> Client \<Rightarrow> string \<Rightarrow> string \<Rightarrow> string \<Rightarrow> tstate
   \<Rightarrow> (error option outcome \<times> tstate) option" where
  "traverse 0 client sourceMount kvVersion currentPath st = None"
| "traverse (Suc fuel) client sourceMount kvVersion currentPath st =
     (if kvVersion = ''1'' then
        (case KvV1List client currentPath sourceMount of
           (response, Some err) \<Rightarrow>
             if Contains err ''404'' then
               Some (Returns None,
                     (fst st, slog LError ''404 Not Found at:'' [(''path'', S currentPath)]
                                (snd st)))
             else Some (Returns (Some (ListFailed ''v1'' currentPath (Lib err))), st)
         | (None, None) \<Rightarrow> Some (Panics, st)
         | (Some keys, None) \<Rightarrow>
             for_keys (traverse fuel client sourceMount kvVersion) sourceMount currentPath
               keys st)
      else if kvVersion = ''2'' then
        (case KvV2List client currentPath sourceMount of
           (response, Some err) \<Rightarrow>
             if Contains err ''404'' then
               Some (Returns None,
                     (fst st, slog LError ''404 Not Found at:'' [(''path'', S currentPath)]
                                (snd st)))
             else Some (Returns (Some (ListFailed ''v2'' currentPath (Lib err))), st)
         | (None, None) \<Rightarrow> Some (Panics, st)
         | (Some keys, None) \<Rightarrow>
             for_keys (traverse fuel client sourceMount kvVersion) sourceMount currentPath
               keys st)
      else Some (Returns (Some (New (''unsupported kv version: '' @ kvVersion))), st))"

definition ListSecrets ::
  "nat \<Rightarrow> ctx \<Rightarrow> Command \<Rightarrow> trace \<Rightarrow> ((string list \<times> error option) outcome \<times> trace) option"
  where
  "ListSecrets fuel ctx cmd t =
     (case GetVaultClient ctx t of (client, t1) \<Rightarrow>
      (let sourceMount = source_mount cmd in
       case GetSourceMountVersion ctx cmd t1 of
         (Panics, t2) \<Rightarrow> Some (Panics, t2)
       | (Exits n, t2) \<Rightarrow> Some (Exits n, t2)
       | (Returns (kvVersion, Some err), t2) \<Rightarrow>
           Some (Returns ([], Some err),
                 slog LError ''Failed to get source mount version'' [(''error'', E err)] t2)
       | (Returns (kvVersion, None), t2) \<Rightarrow>
           (case client of
              None \<Rightarrow> Some (Panics, t2)
            | Some c \<Rightarrow>
                (case traverse fuel c sourceMount kvVersion [] ([], t2) of
                   None \<Rightarrow> None
                 | Some (Panics, (secretsList, t3)) \<Rightarrow> Some (Panics, t3)
                 | Some (Exits n, (secretsList, t3)) \<Rightarrow> Some (Exits n, t3)
                 | Some (Returns (Some err), (secretsList, t3)) \<Rightarrow>
                     Some (Returns ([], Some err), t3)
                 | Some (Returns None, (secretsList, t3)) \<Rightarrow>
                     Some (Returns (secretsList, None), t3)))))"

text \<open>The body of the loop of \<open>CopySecrets\<close> for one discovered path. The target client
  may be nil (\<open>None\<close>): then \<open>targetClient.Secrets\<close> panics and no write is sent.\<close>

definition CopySecrets_body ::
  "Client \<Rightarrow> Client option \<Rightarrow> string \<Rightarrow> string \<Rightarrow> string \<Rightarrow> string \<Rightarrow> trace
   \<Rightarrow> step \<times> trace" where
  "CopySecrets_body sourceClient targetClient sourceMount targetMount kvVersion fullPath t =
     (let relativePath = TrimPrefix fullPath (TrimSuffix sourceMount ''/'' @ ''/'') in
      if kvVersion = ''1'' then
        (case KvV1Read sourceClient relativePath sourceMount of
           (secret, Some err) \<Rightarrow>
             (Next, slog LError ''failed to read KV v1 secret''
                      [(''path'', S fullPath), (''error'', E (Lib err))] t)
         | (None, None) \<Rightarrow> (Panic, t)
         | (Some data, None) \<Rightarrow>
             (let t1 = (if data = None
                        then slog LWarn ''no data found at KV v1 secret''
                               [(''path'', S fullPath)] t
                        else t)
              in case targetClient of
                   None \<Rightarrow> (Panic, t1)
                 | Some tc \<Rightarrow>
                     (let t2 = sent (V1Write relativePath data targetMount) t1
                      in case KvV1Write tc relativePath data targetMount of
                           Some err \<Rightarrow>
                             (Next,
                              slog LError ''failed to write KV v1 secret to target mount''
                                [(''path'', S relativePath), (''error'', E (Lib err))] t2)
                         | None \<Rightarrow>
                             (Next, slog LInfo ''successfully copied KV v1 secret''
                                      [(''path'', S relativePath)] t2))))
      else if kvVersion = ''2'' then
        (case KvV2Read sourceClient relativePath sourceMount of (secret, err) \<Rightarrow>
           (let t1 = (case err of
                        None \<Rightarrow> t
                      | Some e \<Rightarrow>
                          slog LError ''failed to read KV v2 secret''
                            [(''path'', S fullPath), (''error'', E (Lib e))] t)
            in case secret of
                 None \<Rightarrow> (Panic, t1)
               | Some data \<Rightarrow>
                   (let t2 = (if data = None
                              then slog LWarn ''no data found at KV v2 secret''
                                     [(''path'', S fullPath)] t1
                              else t1)
                    in case targetClient of
                         None \<Rightarrow> (Panic, t2)
                       | Some tc \<Rightarrow>
                           (let t3 = sent (V2Write relativePath data targetMount) t2
                            in case KvV2Write tc relativePath data targetMount of
                                 (resp, Some e) \<Rightarrow>
                                   (Next,
                                    slog LError ''failed to write KV v2 secret to target mount''
                                      [(''path'', S relativePath), (''error'', E (Lib e))] t3)
                               | (resp, None) \<Rightarrow>
                                   (Next, slog LInfo ''copied KV v2 secret''
                                            [(''path'', S relativePath)] t3)))))
      else
        (Return (New (''unsupported KV version: '' @ kvVersion)),
         slog LError ''unsupported KV version'' [(''version'', S kvVersion)] t))"

fun CopySecrets_loop ::
  "Client \<Rightarrow> Client option \<Rightarrow> string \<Rightarrow> string \<Rightarrow> string \<Rightarrow> string list \<Rightarrow> trace
   \<Rightarrow> error option outcome \<times> trace" where
  "CopySecrets_loop sourceClient targetClient sourceMount targetMount kvVersion [] t =
     (Returns None, t)"
| "CopySecrets_loop sourceClient targetClient sourceMount targetMount kvVersion
     (fullPath # rest) t =
     (case CopySecrets_body sourceClient targetClient sourceMount targetMount kvVersion
             fullPath t of
        (Next, t1) \<Rightarrow>
          CopySecrets_loop sourceClient targetClient sourceMount targetMount kvVersion rest t1
      | (Return err, t1) \<Rightarrow> (Returns (Some err), t1)
      | (Panic, t1) \<Rightarrow> (Panics, t1))"

text \<open>\<open>targetClient.SetToken(token)\<close>. The method checks the token first and returns
  the error of that check without touching its receiver; past the check, a nil receiver
  is dereferenced.\<close>

definition SetToken_on :: "env \<Rightarrow> Client option \<Rightarrow> string \<Rightarrow> string option outcome" where
  "SetToken_on os targetClient token =
     (case targetClient of
        Some tc \<Rightarrow> Returns (SetToken tc token)
      | None \<Rightarrow>
          (case validateToken os token of
             Some e \<Rightarrow> Returns (Some e)
           | None \<Rightarrow> Panics))"

definition CopySecrets ::
  "nat \<Rightarrow> env \<Rightarrow> ctx \<Rightarrow> Command \<Rightarrow> trace \<Rightarrow> (error option outcome \<times> trace) option" where
  "CopySecrets fuel os ctx cmd t =
     (case GetVaultClient ctx t of (sourceClient, t1) \<Rightarrow>
      (let targetAddr = Getenv os ''VAULT_TARGET_ADDR'';
           targetToken = Getenv os ''VAULT_TARGET_TOKEN''
       in if targetAddr = [] \<or> targetToken = [] then
            Some (Exits 1,
                  slog LError
                    ''VAULT_TARGET_ADDR and VAULT_TARGET_TOKEN environment variables are required''
                    [] t1)
          else
            (let targetClient = vault_New os targetAddr
             in case SetToken_on os targetClient targetToken of
                  Panics \<Rightarrow> Some (Panics, t1)
                | Exits n \<Rightarrow> Some (Exits n, t1)
                | Returns err \<Rightarrow>
                 (let t2 = (case err of
                              None \<Rightarrow> t1
                            | Some e \<Rightarrow>
                                slog LError ''Failed to initialize target vault client''
                                  [(''error'', E (Lib e))] t1);
                      sourceMount = source_mount cmd;
                      targetMount = target_mount cmd
                  in case GetSourceMountVersion ctx cmd t2 of
                       (Panics, t3) \<Rightarrow> Some (Panics, t3)
                     | (Exits n, t3) \<Rightarrow> Some (Exits n, t3)
                     | (Returns (kvVersion, Some err), t3) \<Rightarrow>
                         Some (Exits 1,
                               slog LError ''failed to detect source mount version''
                                 [(''error'', E err)] t3)
                     | (Returns (kvVersion, None), t3) \<Rightarrow>
                         (case ListSecrets fuel ctx cmd t3 of
                            None \<Rightarrow> None
                          | Some (Panics, t4) \<Rightarrow> Some (Panics, t4)
                          | Some (Exits n, t4) \<Rightarrow> Some (Exits n, t4)
                          | Some (Returns (secretsList, Some err), t4) \<Rightarrow>
                              Some (Exits 1,
                                    slog LError ''failed to list secrets under source mount''
                                      [(''error'', E err)] t4)
                          | Some (Returns (secretsList, None), t4) \<Rightarrow>
                              (case sourceClient of
                                 None \<Rightarrow> Some (Panics, t4)
                               | Some sc \<Rightarrow>
                                   Some (CopySecrets_loop sc targetClient sourceMount
                                           targetMount kvVersion secretsList t4)))))))"

section \<open>A small Vault for concrete runs\<close>

text \<open>A client whose answers are read from tables: the mount listing, the keys under
  each path, and the payload at each path. A path missing from a table answers 404;
  writes succeed.\<close>

definition table_client ::
  "gmap \<Rightarrow> (string \<times> string list) list \<Rightarrow> (string \<times> gmap option) list \<Rightarrow> Client" where
  "table_client ms ls ss =
     \<lparr>MountsListSecretsEngines = (Some ms, None),
      KvV1List = (\<lambda>p m. case map_of ls p of
                          None \<Rightarrow> (None, Some ''404 Not Found'')
                        | Some ks \<Rightarrow> (Some ks, None)),
      KvV2List = (\<lambda>p m. case map_of ls p of
                          None \<Rightarrow> (None, Some ''404 Not Found'')
                        | Some ks \<Rightarrow> (Some ks, None)),
      KvV1Read = (\<lambda>p m. case map_of ss p of
                          None \<Rightarrow> (None, Some ''404 Not Found'')
                        | Some d \<Rightarrow> (Some d, None)),
      KvV2Read = (\<lambda>p m. case map_of ss p of
                          None \<Rightarrow> (None, Some ''404 Not Found'')
                        | Some d \<Rightarrow> (Some d, None)),
      KvV1Write = (\<lambda>p d m. None),
      KvV2Write = (\<lambda>p d m. (Some 1, None)),
      SetToken = (\<lambda>tok. None)\<rparr>"

definition kv_mount :: "string \<Rightarrow> string \<Rightarrow> string \<times> gvalue" where
  "kv_mount p v = (p, GMap [(''type'', GString ''kv''), (''options'', GMap [(''version'', GString v)])])"

definition t0 :: trace where
  "t0 = \<lparr>logs = [], writes = []\<rparr>"

definition copy_cmd :: "string \<Rightarrow> string \<Rightarrow> Command" where
  "copy_cmd s d = \<lparr>source_mount = s, target_mount = d, from_file = []\<rparr>"

definition create_cmd :: "string \<Rightarrow> Command" where
  "create_cmd f = \<lparr>source_mount = [], target_mount = [], from_file = f\<rparr>"

text \<open>An environment for \<open>copy\<close>: the target's address and token are set and
  \<open>vault.New\<close> gives the target client.\<close>

definition copy_env :: "Client \<Rightarrow> env" where
  "copy_env tgt =
     \<lparr>Getenv = (\<lambda>k. if k = ''VAULT_TARGET_ADDR'' then ''https://target:8200''
                     else if k = ''VAULT_TARGET_TOKEN'' then ''token'' else []),
      ReadFile = (\<lambda>p. ([], Some ''no such file'')),
      Unmarshal = (\<lambda>raw. ([], None)),
      vault_New = (\<lambda>addr. Some tgt),
      validateToken = (\<lambda>tok. None)\<rparr>"

text \<open>An environment for \<open>create\<close>: every file decodes to the document \<open>doc\<close>.\<close>

definition create_env :: "(string \<times> gmap option) list \<Rightarrow> env" where
  "create_env doc =
     \<lparr>Getenv = (\<lambda>k. []),
      ReadFile = (\<lambda>p. (''(document)'', None)),
      Unmarshal = (\<lambda>raw. (doc, None)),
      vault_New = (\<lambda>addr. None),
      validateToken = (\<lambda>tok. None)\<rparr>"

section \<open>Notions the properties are stated with\<close>

definition add_logs :: "entry list \<Rightarrow> trace \<Rightarrow> trace" where
  "add_logs es t = t\<lparr>logs := logs t @ es\<rparr>"

text \<open>The protocol variant a write request belongs to, and where it goes.\<close>

fun call_version :: "call \<Rightarrow> string" where
  "call_version (V1Write p d m) = ''1''"
| "call_version (V2Write p d m) = ''2''"

fun call_mount :: "call \<Rightarrow> string" where
  "call_mount (V1Write p d m) = m"
| "call_mount (V2Write p d m) = m"

definition warnings :: "trace \<Rightarrow> entry list" where
  "warnings t = filter (\<lambda>e. case e of Log lv msg attrs \<Rightarrow> lv = LWarn) (logs t)"

text \<open>The list call that \<open>traverse\<close> makes for a mount of version 1 or 2.\<close>

definition ListKeys ::
  "Client \<Rightarrow> string \<Rightarrow> string \<Rightarrow> string \<Rightarrow> string list option \<times> string option" where
  "ListKeys client kvVersion sourceMount p =
     (if kvVersion = ''1'' then KvV1List client p sourceMount
      else KvV2List client p sourceMount)"

text \<open>What a traversal can visit. From a prefix \<open>p\<close> whose listing succeeds, each listed
  key that ends in a slash leads to the prefix \<open>path.Join(p, key)\<close>; \<open>reach\<close> is the
  closure of that step. The leaves under a prefix are the joined paths of the keys without
  a trailing slash listed under the prefixes reached from it.\<close>

definition namespace_step :: "Client \<Rightarrow> string \<Rightarrow> string \<Rightarrow> string \<Rightarrow> string \<Rightarrow> bool" where
  "namespace_step client kvVersion sourceMount p q =
     (\<exists>keys key. ListKeys client kvVersion sourceMount p = (Some keys, None) \<and>
        key \<in> set keys \<and> HasSuffix key ''/'' \<and> q = Join [p, key])"

definition reach :: "Client \<Rightarrow> string \<Rightarrow> string \<Rightarrow> string \<Rightarrow> string \<Rightarrow> bool" where
  "reach client kvVersion sourceMount = (namespace_step client kvVersion sourceMount)\<^sup>*\<^sup>*"

definition leaves :: "Client \<Rightarrow> string \<Rightarrow> string \<Rightarrow> string \<Rightarrow> string set" where
  "leaves client kvVersion sourceMount cur =
     {Join [sourceMount, Join [p, key]] | p keys key.
        reach client kvVersion sourceMount cur p \<and>
        ListKeys client kvVersion sourceMount p = (Some keys, None) \<and>
        key \<in> set keys \<and> \<not> HasSuffix key ''/''}"

text \<open>The same notions for the keys of one listing.\<close>

definition keys_leaves :: "Client \<Rightarrow> string \<Rightarrow> string \<Rightarrow> string \<Rightarrow> string list \<Rightarrow> string set" where
  "keys_leaves client kvVersion sourceMount cur keys =
     (\<Union>key \<in> set keys.
        if HasSuffix key ''/'' then leaves client kvVersion sourceMount (Join [cur, key])
        else {Join [sourceMount, Join [cur, key]]})"

definition reach_keys ::
  "Client \<Rightarrow> string \<Rightarrow> string \<Rightarrow> string \<Rightarrow> string list \<Rightarrow> string \<Rightarrow> bool" where
  "reach_keys client kvVersion sourceMount cur keys p =
     (\<exists>key \<in> set keys. HasSuffix key ''/'' \<and>
        reach client kvVersion sourceMount (Join [cur, key]) p)"

text \<open>How the listing of a prefix can fail: with an error that does not mention 404
  (the error \<open>traverse\<close> then returns is \<open>e\<close>), with one that does, or with neither a
  response nor an error.\<close>

definition listing_failed :: "Client \<Rightarrow> string \<Rightarrow> string \<Rightarrow> string \<Rightarrow> error \<Rightarrow> bool" where
  "listing_failed client kvVersion sourceMount p e =
     (\<exists>response err. ListKeys client kvVersion sourceMount p = (response, Some err) \<and>
        \<not> Contains err ''404'' \<and> e = ListFailed (CHR ''v'' # kvVersion) p (Lib err))"

definition not_found :: "Client \<Rightarrow> string \<Rightarrow> string \<Rightarrow> string \<Rightarrow> bool" where
  "not_found client kvVersion sourceMount p =
     (\<exists>response err. ListKeys client kvVersion sourceMount p = (response, Some err) \<and>
        Contains err ''404'')"

definition nil_listing :: "Client \<Rightarrow> string \<Rightarrow> string \<Rightarrow> string \<Rightarrow> bool" where
  "nil_listing client kvVersion sourceMount p =
     (ListKeys client kvVersion sourceMount p = (None, None))"

text \<open>The namespaces under a prefix nest at most \<open>d\<close> levels deep: the tree that a
  traversal from there walks is finite.\<close>

primrec depth_within :: "nat \<Rightarrow> Client \<Rightarrow> string \<Rightarrow> string \<Rightarrow> string \<Rightarrow> bool" where
  "depth_within 0 client kvVersion sourceMount p =
     (case ListKeys client kvVersion sourceMount p of
        (Some keys, None) \<Rightarrow> list_all (\<lambda>key. \<not> HasSuffix key ''/'') keys
      | _ \<Rightarrow> True)"
| "depth_within (Suc d) client kvVersion sourceMount p =
     (case ListKeys client kvVersion sourceMount p of
        (Some keys, None) \<Rightarrow>
          list_all (\<lambda>key. HasSuffix key ''/'' \<longrightarrow>
                      depth_within d client kvVersion sourceMount (Join [p, key])) keys
      | _ \<Rightarrow> True)"

definition log404 :: "string \<Rightarrow> entry" where
  "log404 p = Log LError ''404 Not Found at:'' [(''path'', S p)]"


section \<open>Mount resolution\<close>

lemma bestMatch_loop_inv:
  "let b = bestMatch_loop P ks b0 in
     (b = b0 \<or> (b \<in> set ks \<and> prefix b P)) \<and> length b0 \<le> length b \<and>
     (\<forall>m \<in> set ks. prefix m P \<longrightarrow> length m \<le> length b)"
proof (induction ks arbitrary: b0)
  case Nil
  then show ?case by simp
next
  case (Cons k ks)
  let ?b1 = "if HasPrefix P k \<and> length k > length b0 then k else b0"
  from Cons.IH [of ?b1] show ?case
    by (auto simp: Let_def HasPrefix_def)
qed

lemma bestMatch_loop_key:
  assumes "\<exists>m \<in> set ks. prefix m P"
  shows "bestMatch_loop P ks [] \<in> set ks \<and> prefix (bestMatch_loop P ks []) P \<and>
    (\<forall>m \<in> set ks. prefix m P \<longrightarrow> length m \<le> length (bestMatch_loop P ks []))"
proof -
  let ?b = "bestMatch_loop P ks []"
  from bestMatch_loop_inv [of P ks "[]"]
  have inv: "?b = [] \<or> (?b \<in> set ks \<and> prefix ?b P)"
    and mx: "\<forall>m \<in> set ks. prefix m P \<longrightarrow> length m \<le> length ?b"
    by (simp_all add: Let_def)
  from assms obtain m where m: "m \<in> set ks" "prefix m P" by blast
  show ?thesis
  proof (cases "?b = []")
    case True
    with mx m have "m = []" by auto
    with m True mx show ?thesis by auto
  next
    case False
    with inv mx show ?thesis by auto
  qed
qed

lemma mindex_key: "map_of ms b = Some mi \<Longrightarrow> mindex ms b = mi"
  by (simp add: mindex_def)

lemma TrimSuffix_slash:
  assumes "\<not> suffix ''//'' s"
  shows "\<not> suffix ''/'' (TrimSuffix s ''/'')"
proof (cases "suffix ''/'' s")
  case False
  then show ?thesis by (simp add: TrimSuffix_def HasSuffix_def)
next
  case True
  then obtain r where s: "s = r @ ''/''" by (auto simp: suffix_def)
  then have t: "TrimSuffix s ''/'' = r" by (simp add: TrimSuffix_def HasSuffix_def)
  show ?thesis
  proof
    assume "suffix ''/'' (TrimSuffix s ''/'')"
    with t obtain q where "r = q @ ''/''" by (auto simp: suffix_def)
    with s have "s = q @ ''//''" by simp
    then have "suffix ''//'' s" by (simp add: suffix_def)
    with assms show False by simp
  qed
qed

lemma suffix_drop_up: "suffix x (drop n s) \<Longrightarrow> suffix x s"
  using suffix_drop suffix_order.trans by blast

text \<open>
  Claim C3. When the client is in the context and at least one key of the mount map is a
  string prefix of the secret path \<open>P\<close>, \<open>findMountForSecret\<close> returns, with a nil error
  and without logging, the entry stored under a key \<open>b\<close> that is a prefix of \<open>P\<close> and at
  least as long as every other key that is a prefix of \<open>P\<close>; the relative path is \<open>P\<close>
  without its first \<open>length b\<close> bytes and without a trailing \<open>/\<close> (\<open>strings.TrimSuffix\<close>
  removes one; unless \<open>P\<close> ends in two slashes, none is left). With the mounts \<open>a/\<close> and
  \<open>a/b/\<close>, in either iteration order of the map, the path \<open>a/b/c\<close> resolves to the mount
  \<open>a/b/\<close> and the relative path \<open>c\<close>.
\<close>

theorem findMountForSecret_longest_prefix:
  "(ctx \<noteq> None \<and> (\<exists>m \<in> fst ` set ms. prefix m P) \<longrightarrow>
      (\<exists>b mi. map_of ms b = Some mi \<and> prefix b P \<and>
         (\<forall>m \<in> fst ` set ms. prefix m P \<longrightarrow> length m \<le> length b) \<and>
         findMountForSecret ctx P ms t =
           ((mi, TrimSuffix (drop (length b) P) ''/'', None), t) \<and>
         (\<not> suffix ''//'' P \<longrightarrow> \<not> suffix ''/'' (TrimSuffix (drop (length b) P) ''/'')))) \<and>
   (ctx \<noteq> None \<longrightarrow>
      findMountForSecret ctx ''a/b/c''
        [(''a/'', \<lparr>MountPath = ''a/'', Version = ''1''\<rparr>),
         (''a/b/'', \<lparr>MountPath = ''a/b/'', Version = ''2''\<rparr>)] t =
        ((\<lparr>MountPath = ''a/b/'', Version = ''2''\<rparr>, ''c'', None), t) \<and>
      findMountForSecret ctx ''a/b/c''
        [(''a/b/'', \<lparr>MountPath = ''a/b/'', Version = ''2''\<rparr>),
         (''a/'', \<lparr>MountPath = ''a/'', Version = ''1''\<rparr>)] t =
        ((\<lparr>MountPath = ''a/b/'', Version = ''2''\<rparr>, ''c'', None), t))"
proof (intro conjI impI)
  assume a: "ctx \<noteq> None \<and> (\<exists>m \<in> fst ` set ms. prefix m P)"
  let ?b = "bestMatch_loop P (map fst ms) []"
  from a have "\<exists>m \<in> set (map fst ms). prefix m P" by simp
  from bestMatch_loop_key [OF this]
  have k: "?b \<in> set (map fst ms)" and p: "prefix ?b P"
    and mx: "\<forall>m \<in> set (map fst ms). prefix m P \<longrightarrow> length m \<le> length ?b"
    by blast+
  from k obtain mi where mi: "map_of ms ?b = Some mi"
    by (metis map_of_eq_None_iff not_Some_eq set_map)
  from a obtain client where c: "ctx = Some client" by auto
  have f: "findMountForSecret ctx P ms t =
      ((mi, TrimSuffix (drop (length ?b) P) ''/'', None), t)"
    using p mi c
    by (simp add: findMountForSecret_def GetVaultClient_def Let_def TrimPrefix_def
        HasPrefix_def mindex_key)
  have s: "\<not> suffix ''//'' P \<longrightarrow> \<not> suffix ''/'' (TrimSuffix (drop (length ?b) P) ''/'')"
    using TrimSuffix_slash [of "drop (length ?b) P"] suffix_drop_up [of "''//''" "length ?b" P]
    by blast
  from mi p mx f s show "\<exists>b mi. map_of ms b = Some mi \<and> prefix b P \<and>
         (\<forall>m \<in> fst ` set ms. prefix m P \<longrightarrow> length m \<le> length b) \<and>
         findMountForSecret ctx P ms t =
           ((mi, TrimSuffix (drop (length b) P) ''/'', None), t) \<and>
         (\<not> suffix ''//'' P \<longrightarrow> \<not> suffix ''/'' (TrimSuffix (drop (length b) P) ''/''))"
    by (intro exI [of _ ?b] exI [of _ mi]) simp
next
  assume "ctx \<noteq> None"
  then obtain client where c: "ctx = Some client" by auto
  show "findMountForSecret ctx ''a/b/c''
        [(''a/'', \<lparr>MountPath = ''a/'', Version = ''1''\<rparr>),
         (''a/b/'', \<lparr>MountPath = ''a/b/'', Version = ''2''\<rparr>)] t =
        ((\<lparr>MountPath = ''a/b/'', Version = ''2''\<rparr>, ''c'', None), t)"
    by (simp add: c findMountForSecret_def GetVaultClient_def Let_def TrimPrefix_def
        TrimSuffix_def HasPrefix_def HasSuffix_def mindex_def suffix_to_prefix)
  show "findMountForSecret ctx ''a/b/c''
        [(''a/b/'', \<lparr>MountPath = ''a/b/'', Version = ''2''\<rparr>),
         (''a/'', \<lparr>MountPath = ''a/'', Version = ''1''\<rparr>)] t =
        ((\<lparr>MountPath = ''a/b/'', Version = ''2''\<rparr>, ''c'', None), t)"
    by (simp add: c findMountForSecret_def GetVaultClient_def Let_def TrimPrefix_def
        TrimSuffix_def HasPrefix_def HasSuffix_def mindex_def suffix_to_prefix)
qed

theorem findMountForSecret_longest_prefix_witness:
  "(\<exists>m \<in> fst ` set [(''secrets/'', \<lparr>MountPath = ''secrets/'', Version = ''2''\<rparr>),
                     (''secrets/internal/'',
                      \<lparr>MountPath = ''secrets/internal/'', Version = ''1''\<rparr>)].
      prefix m ''secrets/internal/db/'') \<and>
   (\<exists>b mi. map_of [(''secrets/'', \<lparr>MountPath = ''secrets/'', Version = ''2''\<rparr>),
                   (''secrets/internal/'',
                    \<lparr>MountPath = ''secrets/internal/'', Version = ''1''\<rparr>)] b = Some mi \<and>
      prefix b ''secrets/internal/db/'' \<and>
      findMountForSecret (Some (table_client [] [] [])) ''secrets/internal/db/''
        [(''secrets/'', \<lparr>MountPath = ''secrets/'', Version = ''2''\<rparr>),
         (''secrets/internal/'', \<lparr>MountPath = ''secrets/internal/'', Version = ''1''\<rparr>)] t0 =
        ((mi, TrimSuffix (drop (length b) ''secrets/internal/db/'') ''/'', None), t0)) \<and>
   findMountForSecret (Some (table_client [] [] [])) ''a/b/c''
     [(''a/'', \<lparr>MountPath = ''a/'', Version = ''1''\<rparr>),
      (''a/b/'', \<lparr>MountPath = ''a/b/'', Version = ''2''\<rparr>)] t0 =
     ((\<lparr>MountPath = ''a/b/'', Version = ''2''\<rparr>, ''c'', None), t0)"
proof -
  have c: "Some (table_client [] [] []) \<noteq> None" by simp
  have h: "\<exists>m \<in> fst ` set [(''secrets/'', \<lparr>MountPath = ''secrets/'', Version = ''2''\<rparr>),
                     (''secrets/internal/'',
                      \<lparr>MountPath = ''secrets/internal/'', Version = ''1''\<rparr>)].
      prefix m ''secrets/internal/db/''"
    by simp
  note th = findMountForSecret_longest_prefix
    [of "Some (table_client [] [] [])"
        "[(''secrets/'', \<lparr>MountPath = ''secrets/'', Version = ''2''\<rparr>),
          (''secrets/internal/'', \<lparr>MountPath = ''secrets/internal/'', Version = ''1''\<rparr>)]"
        "''secrets/internal/db/''" t0]
  from th c h have g: "\<exists>b mi. map_of [(''secrets/'', \<lparr>MountPath = ''secrets/'', Version = ''2''\<rparr>),
                   (''secrets/internal/'',
                    \<lparr>MountPath = ''secrets/internal/'', Version = ''1''\<rparr>)] b = Some mi \<and>
      prefix b ''secrets/internal/db/'' \<and>
      findMountForSecret (Some (table_client [] [] [])) ''secrets/internal/db/''
        [(''secrets/'', \<lparr>MountPath = ''secrets/'', Version = ''2''\<rparr>),
         (''secrets/internal/'', \<lparr>MountPath = ''secrets/internal/'', Version = ''1''\<rparr>)] t0 =
        ((mi, TrimSuffix (drop (length b) ''secrets/internal/db/'') ''/'', None), t0)"
    by blast
  from th c have s: "findMountForSecret (Some (table_client [] [] [])) ''a/b/c''
     [(''a/'', \<lparr>MountPath = ''a/'', Version = ''1''\<rparr>),
      (''a/b/'', \<lparr>MountPath = ''a/b/'', Version = ''2''\<rparr>)] t0 =
     ((\<lparr>MountPath = ''a/b/'', Version = ''2''\<rparr>, ''c'', None), t0)"
    by blast
  show ?thesis by (intro conjI h g s)
qed

section \<open>Frame lemmas\<close>

lemmas run_defs =
  copy_cmd_def copy_env_def create_env_def create_cmd_def table_client_def kv_mount_def t0_def
  CopySecrets_def SetToken_on_def ListSecrets_def GetSourceMountVersion_def
  GetVaultClient_def CopySecrets_body_def CreateSecrets_def CreateSecrets_body_def GetSecretEngines_def
  findMountForSecret_def slog_def sent_def gindex_def mindex_def Join_def Clean_def
  TrimPrefix_def TrimSuffix_def HasPrefix_def HasSuffix_def suffix_to_prefix Let_def
  traverse.simps(2)

lemma add_logs_simps [simp]:
  "logs (add_logs es t) = logs t @ es" "writes (add_logs es t) = writes t"
  "add_logs [] t = t" "add_logs es (add_logs es' t) = add_logs (es' @ es) t"
  by (simp_all add: add_logs_def)

lemma slog_add_logs: "slog lv msg attrs t = add_logs [Log lv msg attrs] t"
  by (simp add: slog_def add_logs_def)

lemma GetVaultClient_Some [simp]: "GetVaultClient (Some c) t = (Some c, t)"
  by (simp add: GetVaultClient_def)

lemma GetSourceMountVersion_trace:
  "\<exists>r0 es. \<forall>u. GetSourceMountVersion ctx cmd u = (r0, add_logs es u)"
proof (cases ctx)
  case None
  show ?thesis
    by (rule exI [of _ Panics],
        rule exI [of _ "[Log LError ''Vault client not found in context'' []]"])
       (simp add: None GetSourceMountVersion_def GetVaultClient_def slog_add_logs)
next
  case (Some client)
  obtain response err where r: "MountsListSecretsEngines client = (response, err)"
    by (cases "MountsListSecretsEngines client")
  show ?thesis
    by (rule exI [of _ "fst (GetSourceMountVersion ctx cmd t0)"],
        rule exI [of _ "case err of None \<Rightarrow> []
           | Some e \<Rightarrow> [Log LError ''Failed to list secret engines'' [(''error'', E (Lib e))]]"])
       (simp add: Some r GetSourceMountVersion_def slog_add_logs Let_def
          split: option.splits gvalue.splits)
qed

lemma for_keys_writes:
  assumes rec: "\<And>p st r st'. rec p st = Some (r, st') \<Longrightarrow> writes (snd st') = writes (snd st)"
  shows "for_keys rec m cur keys st = Some (r, st') \<Longrightarrow> writes (snd st') = writes (snd st)"
proof (induction keys arbitrary: st)
  case Nil
  then show ?case by simp
next
  case (Cons k keys)
  show ?case
  proof (cases "HasSuffix k ''/''")
    case True
    with Cons.prems obtain r1 st1 where r1: "rec (Join [cur, k]) st = Some (r1, st1)"
      by (auto simp: Let_def split: option.splits)
    from rec [OF r1] have w: "writes (snd st1) = writes (snd st)" .
    show ?thesis
    proof (cases "r1 = Returns None")
      case True
      with Cons.prems \<open>HasSuffix k ''/''\<close> r1
      have "for_keys rec m cur keys st1 = Some (r, st')" by (simp add: Let_def)
      from Cons.IH [OF this] w show ?thesis by simp
    next
      case False
      with Cons.prems \<open>HasSuffix k ''/''\<close> r1 have "st' = st1"
        by (auto simp: Let_def split: outcome.splits option.splits)
      with w show ?thesis by simp
    qed
  next
    case False
    with Cons.prems
    have "for_keys rec m cur keys (fst st @ [Join [m, Join [cur, k]]], snd st) = Some (r, st')"
      by (simp add: Let_def)
    from Cons.IH [OF this] show ?thesis by simp
  qed
qed

lemma traverse_Suc:
  "kvVersion = ''1'' \<or> kvVersion = ''2'' \<Longrightarrow>
   traverse (Suc n) c m kvVersion cur st =
     (case ListKeys c kvVersion m cur of
        (response, Some err) \<Rightarrow>
          if Contains err ''404'' then
            Some (Returns None,
                  (fst st, slog LError ''404 Not Found at:'' [(''path'', S cur)] (snd st)))
          else Some (Returns (Some (ListFailed (CHR ''v'' # kvVersion) cur (Lib err))), st)
      | (None, None) \<Rightarrow> Some (Panics, st)
      | (Some keys, None) \<Rightarrow> for_keys (traverse n c m kvVersion) m cur keys st)"
  by (auto simp: ListKeys_def)

lemma traverse_unsupported:
  "kvVersion \<noteq> ''1'' \<Longrightarrow> kvVersion \<noteq> ''2'' \<Longrightarrow>
   traverse (Suc n) c m kvVersion cur st =
     Some (Returns (Some (New (''unsupported kv version: '' @ kvVersion))), st)"
  by simp

declare traverse.simps(2) [simp del]

lemma traverse_writes:
  "traverse n c m v cur st = Some (r, st') \<Longrightarrow> writes (snd st') = writes (snd st)"
proof (induction n arbitrary: cur st r st')
  case 0
  then show ?case by simp
next
  case (Suc n)
  have rec: "\<And>p st r st'. traverse n c m v p st = Some (r, st') \<Longrightarrow>
      writes (snd st') = writes (snd st)"
    using Suc.IH by blast
  have fk: "\<And>keys st r st'. for_keys (traverse n c m v) m cur keys st = Some (r, st') \<Longrightarrow>
      writes (snd st') = writes (snd st)"
    by (rule for_keys_writes [where rec = "traverse n c m v"]) (rule rec)
  show ?case
  proof (cases "v = ''1'' \<or> v = ''2''")
    case True
    obtain response err where l: "ListKeys c v m cur = (response, err)"
      by (cases "ListKeys c v m cur")
    show ?thesis
    proof (cases "\<exists>keys. response = Some keys \<and> err = None")
      case True
      then obtain keys where "response = Some keys" "err = None" by blast
      with Suc.prems l have "for_keys (traverse n c m v) m cur keys st = Some (r, st')"
        by (simp add: traverse_Suc [OF \<open>v = ''1'' \<or> v = ''2''\<close>])
      then show ?thesis by (rule fk)
    next
      case False
      with Suc.prems l show ?thesis
        by (auto simp: traverse_Suc [OF \<open>v = ''1'' \<or> v = ''2''\<close>] slog_def
            split: if_splits option.splits)
    qed
  next
    case False
    with Suc.prems show ?thesis by (auto simp: traverse_unsupported)
  qed
qed

lemma ListSecrets_writes:
  "ListSecrets fuel ctx cmd t = Some (r, t') \<Longrightarrow> writes t' = writes t"
proof -
  assume a: "ListSecrets fuel ctx cmd t = Some (r, t')"
  obtain r0 es where g: "\<And>u. GetSourceMountVersion ctx cmd u = (r0, add_logs es u)"
    using GetSourceMountVersion_trace [of ctx cmd] by blast
  obtain client t1 where c: "GetVaultClient ctx t = (client, t1)"
    by (cases "GetVaultClient ctx t")
  then have w1: "writes t1 = writes t"
    by (auto simp: GetVaultClient_def slog_def split: option.splits)
  from a c w1 show ?thesis
    by (auto simp: ListSecrets_def g slog_def Let_def
        split: outcome.splits option.splits prod.splits dest!: traverse_writes)
qed

lemma CopySecrets_body_writes:
  "CopySecrets_body sc tc sm tm v p t = (s, t') \<Longrightarrow>
   \<exists>ws. writes t' = writes t @ ws \<and>
     (\<forall>c \<in> set ws. call_version c = v \<and> call_mount c = tm)"
  by (auto simp: CopySecrets_body_def Let_def slog_def sent_def
      split: if_splits prod.splits option.splits)

lemma CopySecrets_loop_writes:
  "CopySecrets_loop sc tc sm tm v ps t = (r, t') \<Longrightarrow>
   \<exists>ws. writes t' = writes t @ ws \<and>
     (\<forall>c \<in> set ws. call_version c = v \<and> call_mount c = tm)"
proof (induction ps arbitrary: t)
  case Nil
  then show ?case by simp
next
  case (Cons p ps)
  obtain s t1 where b: "CopySecrets_body sc tc sm tm v p t = (s, t1)"
    by (cases "CopySecrets_body sc tc sm tm v p t")
  from CopySecrets_body_writes [OF b] obtain ws1 where
    w1: "writes t1 = writes t @ ws1" "\<forall>c \<in> set ws1. call_version c = v \<and> call_mount c = tm"
    by blast
  show ?case
  proof (cases s)
    case Next
    with Cons.prems b have "CopySecrets_loop sc tc sm tm v ps t1 = (r, t')" by simp
    from Cons.IH [OF this] obtain ws2 where
      "writes t' = writes t1 @ ws2" "\<forall>c \<in> set ws2. call_version c = v \<and> call_mount c = tm"
      by blast
    with w1 show ?thesis by (intro exI [of _ "ws1 @ ws2"]) auto
  next
    case (Return e)
    with Cons.prems b have "t' = t1" by simp
    with w1 show ?thesis by blast
  next
    case Panic
    with Cons.prems b have "t' = t1" by simp
    with w1 show ?thesis by blast
  qed
qed

lemma CopySecrets_shape:
  assumes a: "CopySecrets fuel os ctx cmd t = Some (r, t')"
  shows "writes t' = writes t \<or>
    (\<exists>sc tc v ps t4. CopySecrets_loop sc tc (source_mount cmd) (target_mount cmd) v ps t4 = (r, t')
       \<and> writes t4 = writes t \<and> fst (GetSourceMountVersion ctx cmd t) = Returns (v, None))"
proof -
  obtain r0 es where g: "\<And>u. GetSourceMountVersion ctx cmd u = (r0, add_logs es u)"
    using GetSourceMountVersion_trace [of ctx cmd] by blast
  obtain sourceClient t1 where c: "GetVaultClient ctx t = (sourceClient, t1)"
    by (cases "GetVaultClient ctx t")
  then have w1: "writes t1 = writes t"
    by (auto simp: GetVaultClient_def slog_def split: option.splits)
  from a c w1 show ?thesis
    by (auto simp: CopySecrets_def SetToken_on_def g slog_def Let_def
        split: if_splits outcome.splits option.splits prod.splits dest!: ListSecrets_writes)
qed

section \<open>Which write operation a copy uses\<close>

text \<open>
  Claim C2, as amended. Every write request that a run of \<open>CopySecrets\<close> sends goes to
  the mount named by \<open>--target-mount\<close> and is the write operation of the version that
  \<open>GetSourceMountVersion\<close> detected for the source mount: \<open>KvV1Write\<close> when the source is
  version 1, \<open>KvV2Write\<close> when it is version 2. The version of the target mount is never
  read.
\<close>

theorem CopySecrets_writes_follow_source:
  "CopySecrets fuel os ctx cmd t = Some (r, t') \<longrightarrow>
   (\<exists>ws. writes t' = writes t @ ws \<and>
      (\<forall>c \<in> set ws.
         fst (GetSourceMountVersion ctx cmd t) = Returns (call_version c, None) \<and>
         call_mount c = target_mount cmd))"
proof
  assume a: "CopySecrets fuel os ctx cmd t = Some (r, t')"
  from CopySecrets_shape [OF a]
  show "\<exists>ws. writes t' = writes t @ ws \<and>
      (\<forall>c \<in> set ws.
         fst (GetSourceMountVersion ctx cmd t) = Returns (call_version c, None) \<and>
         call_mount c = target_mount cmd)"
  proof
    assume "writes t' = writes t"
    then show ?thesis by simp
  next
    assume "\<exists>sc tc v ps t4. CopySecrets_loop sc tc (source_mount cmd) (target_mount cmd) v ps t4 = (r, t')
       \<and> writes t4 = writes t \<and> fst (GetSourceMountVersion ctx cmd t) = Returns (v, None)"
    then obtain sc tc v ps t4 where
      l: "CopySecrets_loop sc tc (source_mount cmd) (target_mount cmd) v ps t4 = (r, t')"
      and w4: "writes t4 = writes t"
      and v: "fst (GetSourceMountVersion ctx cmd t) = Returns (v, None)"
      by blast
    from CopySecrets_loop_writes [OF l] w4 v show ?thesis by auto
  qed
qed

theorem CopySecrets_writes_follow_source_witness:
  "CopySecrets 1 (copy_env (table_client [kv_mount ''backup/'' ''2''] [] []))
     (Some (table_client [kv_mount ''secrets/'' ''2''] [([], [''a''])]
              [(''a'', Some [(''k'', GString ''v'')])]))
     (copy_cmd ''secrets'' ''backup'') t0 =
     Some (Returns None,
       \<lparr>logs = [Log LInfo ''copied KV v2 secret'' [(''path'', S ''a'')]],
        writes = [V2Write ''a'' (Some [(''k'', GString ''v'')]) ''backup'']\<rparr>) \<and>
   (\<exists>ws. writes \<lparr>logs = [Log LInfo ''copied KV v2 secret'' [(''path'', S ''a'')]],
                 writes = [V2Write ''a'' (Some [(''k'', GString ''v'')]) ''backup'']\<rparr> =
           writes t0 @ ws \<and>
      (\<forall>c \<in> set ws.
         fst (GetSourceMountVersion
                (Some (table_client [kv_mount ''secrets/'' ''2''] [([], [''a''])]
                         [(''a'', Some [(''k'', GString ''v'')])]))
                (copy_cmd ''secrets'' ''backup'') t0) = Returns (call_version c, None) \<and>
         call_mount c = target_mount (copy_cmd ''secrets'' ''backup'')))"
proof -
  have run: "CopySecrets 1 (copy_env (table_client [kv_mount ''backup/'' ''2''] [] []))
     (Some (table_client [kv_mount ''secrets/'' ''2''] [([], [''a''])]
              [(''a'', Some [(''k'', GString ''v'')])]))
     (copy_cmd ''secrets'' ''backup'') t0 =
     Some (Returns None,
       \<lparr>logs = [Log LInfo ''copied KV v2 secret'' [(''path'', S ''a'')]],
        writes = [V2Write ''a'' (Some [(''k'', GString ''v'')]) ''backup'']\<rparr>)"
    by (simp add: run_defs)
  from CopySecrets_writes_follow_source
    [of 1 "copy_env (table_client [kv_mount ''backup/'' ''2''] [] [])"
        "Some (table_client [kv_mount ''secrets/'' ''2''] [([], [''a''])]
                 [(''a'', Some [(''k'', GString ''v'')])])"
        "copy_cmd ''secrets'' ''backup''" t0 "Returns None"
        "\<lparr>logs = [Log LInfo ''copied KV v2 secret'' [(''path'', S ''a'')]],
          writes = [V2Write ''a'' (Some [(''k'', GString ''v'')]) ''backup'']\<rparr>"] run
  show ?thesis by blast
qed

text \<open>The claim as stated fails: a version-1 source copied to a target whose mount
  is version 2 gets a \<open>KvV1Write\<close>.\<close>

theorem CopySecrets_target_version_counterexample:
  "CopySecrets 1 (copy_env (table_client [kv_mount ''backup/'' ''2''] [] []))
     (Some (table_client [kv_mount ''secrets/'' ''1''] [([], [''a''])]
              [(''a'', Some [(''k'', GString ''v'')])]))
     (copy_cmd ''secrets'' ''backup'') t0 =
     Some (Returns None,
       \<lparr>logs = [Log LInfo ''successfully copied KV v1 secret'' [(''path'', S ''a'')]],
        writes = [V1Write ''a'' (Some [(''k'', GString ''v'')]) ''backup'']\<rparr>) \<and>
   GetSourceMountVersion (Some (table_client [kv_mount ''backup/'' ''2''] [] []))
     (copy_cmd ''backup'' []) t0 = (Returns (''2'', None), t0) \<and>
   call_version (V1Write ''a'' (Some [(''k'', GString ''v'')]) ''backup'') \<noteq> ''2''"
  by (simp add: run_defs)

section \<open>Detecting the version of the source mount\<close>

lemma GetSourceMountVersion_fst:
  "(\<And>u. GetSourceMountVersion ctx cmd u = (r0, add_logs es u)) \<Longrightarrow>
   fst (GetSourceMountVersion ctx cmd t) = r0"
  by simp

lemma GetSourceMountVersion_Some:
  assumes "MountsListSecretsEngines client = (Some data, err)"
    and "sourceMount = (if \<not> HasSuffix (source_mount cmd) ''/'' then source_mount cmd @ ''/''
                        else source_mount cmd)"
  shows "fst (GetSourceMountVersion (Some client) cmd t) =
    (case gindex data sourceMount of
       GMap mnt \<Rightarrow>
         (case gindex mnt ''options'' of
            GMap options \<Rightarrow>
              Returns (Sprintf_v (gindex options ''version''), map_option Lib err)
          | _ \<Rightarrow> Panics)
     | _ \<Rightarrow> Panics)"
proof (cases "HasSuffix (source_mount cmd) ''/''")
  case True
  with assms show ?thesis
    by (simp add: GetSourceMountVersion_def Let_def split: gvalue.splits)
next
  case False
  with assms show ?thesis
    by (simp add: GetSourceMountVersion_def Let_def split: gvalue.splits)
qed

text \<open>
  Claim C10, as amended. Let the mount listing succeed. When the source mount path (with
  its trailing slash) is absent from the listing, or its entry holds no \<open>options\<close> map,
  \<open>GetSourceMountVersion\<close> panics on an unchecked type assertion instead of returning an
  error; and whenever it panics, so does \<open>CopySecrets\<close>, before any secret is written.
  When the \<open>options\<close> map is there but has no \<open>version\<close> field, nothing panics: the
  missing value is printed by \<open>%v\<close> and the function returns the string \<open><nil>\<close>.
\<close>

theorem GetSourceMountVersion_unchecked_assertions:
  "(ctx = Some client \<and> MountsListSecretsEngines client = (Some data, err) \<and>
    sourceMount = (if \<not> HasSuffix (source_mount cmd) ''/'' then source_mount cmd @ ''/''
                   else source_mount cmd) \<longrightarrow>
      (map_of data sourceMount = None \<longrightarrow>
         fst (GetSourceMountVersion ctx cmd t) = Panics) \<and>
      (\<forall>mnt. map_of data sourceMount = Some (GMap mnt) \<and>
          (\<forall>opts. map_of mnt ''options'' \<noteq> Some (GMap opts)) \<longrightarrow>
          fst (GetSourceMountVersion ctx cmd t) = Panics) \<and>
      (\<forall>mnt opts. map_of data sourceMount = Some (GMap mnt) \<and>
          map_of mnt ''options'' = Some (GMap opts) \<and> map_of opts ''version'' = None \<longrightarrow>
          fst (GetSourceMountVersion ctx cmd t) = Returns (''<nil>'', map_option Lib err))) \<and>
   (fst (GetSourceMountVersion ctx cmd t) = Panics \<and>
    Getenv os ''VAULT_TARGET_ADDR'' \<noteq> [] \<and> Getenv os ''VAULT_TARGET_TOKEN'' \<noteq> [] \<and>
    vault_New os (Getenv os ''VAULT_TARGET_ADDR'') \<noteq> None \<longrightarrow>
      (\<exists>t'. CopySecrets fuel os ctx cmd t = Some (Panics, t') \<and> writes t' = writes t))"
proof (intro conjI impI allI)
  assume h: "ctx = Some client \<and> MountsListSecretsEngines client = (Some data, err) \<and>
    sourceMount = (if \<not> HasSuffix (source_mount cmd) ''/'' then source_mount cmd @ ''/''
                   else source_mount cmd)"
  then have eq: "fst (GetSourceMountVersion ctx cmd t) =
    (case gindex data sourceMount of
       GMap mnt \<Rightarrow>
         (case gindex mnt ''options'' of
            GMap options \<Rightarrow>
              Returns (Sprintf_v (gindex options ''version''), map_option Lib err)
          | _ \<Rightarrow> Panics)
     | _ \<Rightarrow> Panics)"
    using GetSourceMountVersion_Some [of client data err sourceMount cmd t] by simp
  {
    assume "map_of data sourceMount = None"
    then show "fst (GetSourceMountVersion ctx cmd t) = Panics"
      by (simp add: eq gindex_def)
  next
    fix mnt
    assume "map_of data sourceMount = Some (GMap mnt) \<and>
          (\<forall>opts. map_of mnt ''options'' \<noteq> Some (GMap opts))"
    then show "fst (GetSourceMountVersion ctx cmd t) = Panics"
      by (auto simp: eq gindex_def split: option.splits gvalue.splits)
  next
    fix mnt opts
    assume "map_of data sourceMount = Some (GMap mnt) \<and>
          map_of mnt ''options'' = Some (GMap opts) \<and> map_of opts ''version'' = None"
    then show "fst (GetSourceMountVersion ctx cmd t) = Returns (''<nil>'', map_option Lib err)"
      by (simp add: eq gindex_def)
  }
next
  assume a: "fst (GetSourceMountVersion ctx cmd t) = Panics \<and>
    Getenv os ''VAULT_TARGET_ADDR'' \<noteq> [] \<and> Getenv os ''VAULT_TARGET_TOKEN'' \<noteq> [] \<and>
    vault_New os (Getenv os ''VAULT_TARGET_ADDR'') \<noteq> None"
  obtain r0 es where g: "\<And>u. GetSourceMountVersion ctx cmd u = (r0, add_logs es u)"
    using GetSourceMountVersion_trace [of ctx cmd] by blast
  with a have r0: "r0 = Panics" by simp
  obtain sourceClient t1 where c: "GetVaultClient ctx t = (sourceClient, t1)"
    by (cases "GetVaultClient ctx t")
  then have w1: "writes t1 = writes t"
    by (auto simp: GetVaultClient_def slog_def split: option.splits)
  from a obtain tc where tc: "vault_New os (Getenv os ''VAULT_TARGET_ADDR'') = Some tc"
    by blast
  from a c w1 show "\<exists>t'. CopySecrets fuel os ctx cmd t = Some (Panics, t') \<and> writes t' = writes t"
    by (cases "SetToken tc (Getenv os ''VAULT_TARGET_TOKEN'')")
       (simp_all add: CopySecrets_def SetToken_on_def g r0 tc Let_def slog_add_logs)
qed

theorem GetSourceMountVersion_unchecked_assertions_witness:
  "fst (GetSourceMountVersion (Some (table_client [kv_mount ''other/'' ''2''] [] []))
          (copy_cmd ''secrets'' ''backup'') t0) = Panics \<and>
   fst (GetSourceMountVersion
          (Some (table_client [(''secrets/'', GMap [(''type'', GString ''kv'')])] [] []))
          (copy_cmd ''secrets'' ''backup'') t0) = Panics \<and>
   fst (GetSourceMountVersion
          (Some (table_client [(''secrets/'', GMap [(''options'', GMap [])])] [] []))
          (copy_cmd ''secrets'' ''backup'') t0) = Returns (''<nil>'', map_option Lib None) \<and>
   (\<exists>t'. CopySecrets 1 (copy_env (table_client [] [] []))
           (Some (table_client [kv_mount ''other/'' ''2''] [] []))
           (copy_cmd ''secrets'' ''backup'') t0 = Some (Panics, t') \<and>
         writes t' = writes t0)"
proof -
  have sm: "''secrets/'' =
      (if \<not> HasSuffix (source_mount (copy_cmd ''secrets'' ''backup'')) ''/''
       then source_mount (copy_cmd ''secrets'' ''backup'') @ ''/''
       else source_mount (copy_cmd ''secrets'' ''backup''))"
    by (simp add: copy_cmd_def HasSuffix_def suffix_to_prefix)
  have env: "Getenv (copy_env (table_client [] [] [])) ''VAULT_TARGET_ADDR'' \<noteq> [] \<and>
      Getenv (copy_env (table_client [] [] [])) ''VAULT_TARGET_TOKEN'' \<noteq> [] \<and>
      vault_New (copy_env (table_client [] [] []))
        (Getenv (copy_env (table_client [] [] [])) ''VAULT_TARGET_ADDR'') \<noteq> None"
    by (simp add: copy_env_def)
  have m1: "MountsListSecretsEngines (table_client [kv_mount ''other/'' ''2''] [] []) =
      (Some [kv_mount ''other/'' ''2''], None)"
    by (simp add: table_client_def)
  have a1: "map_of [kv_mount ''other/'' ''2''] ''secrets/'' = None"
    by (simp add: kv_mount_def)
  have m2: "MountsListSecretsEngines
        (table_client [(''secrets/'', GMap [(''type'', GString ''kv'')])] [] []) =
      (Some [(''secrets/'', GMap [(''type'', GString ''kv'')])], None)"
    by (simp add: table_client_def)
  have a2: "map_of [(''secrets/'', GMap [(''type'', GString ''kv'')])] ''secrets/'' =
        Some (GMap [(''type'', GString ''kv'')]) \<and>
      (\<forall>opts. map_of [(''type'', GString ''kv'')] ''options'' \<noteq> Some (GMap opts))"
    by simp
  have m3: "MountsListSecretsEngines
        (table_client [(''secrets/'', GMap [(''options'', GMap [])])] [] []) =
      (Some [(''secrets/'', GMap [(''options'', GMap [])])], None)"
    by (simp add: table_client_def)
  have a3: "map_of [(''secrets/'', GMap [(''options'', GMap [])])] ''secrets/'' =
        Some (GMap [(''options'', GMap [])]) \<and>
      map_of [(''options'', GMap [])] ''options'' = Some (GMap []) \<and>
      map_of ([] :: gmap) ''version'' = None"
    by simp
  note th = GetSourceMountVersion_unchecked_assertions
  have p1: "fst (GetSourceMountVersion (Some (table_client [kv_mount ''other/'' ''2''] [] []))
          (copy_cmd ''secrets'' ''backup'') t0) = Panics"
    using th [of "Some (table_client [kv_mount ''other/'' ''2''] [] [])"
        "table_client [kv_mount ''other/'' ''2''] [] []" "[kv_mount ''other/'' ''2'']" None
        "''secrets/''" "copy_cmd ''secrets'' ''backup''" t0] m1 a1 sm
    by blast
  have p2: "fst (GetSourceMountVersion
          (Some (table_client [(''secrets/'', GMap [(''type'', GString ''kv'')])] [] []))
          (copy_cmd ''secrets'' ''backup'') t0) = Panics"
    using th [of "Some (table_client [(''secrets/'', GMap [(''type'', GString ''kv'')])] [] [])"
        "table_client [(''secrets/'', GMap [(''type'', GString ''kv'')])] [] []"
        "[(''secrets/'', GMap [(''type'', GString ''kv'')])]" None
        "''secrets/''" "copy_cmd ''secrets'' ''backup''" t0] m2 a2 sm
    by blast
  have p3: "fst (GetSourceMountVersion
          (Some (table_client [(''secrets/'', GMap [(''options'', GMap [])])] [] []))
          (copy_cmd ''secrets'' ''backup'') t0) = Returns (''<nil>'', map_option Lib None)"
    using th [of "Some (table_client [(''secrets/'', GMap [(''options'', GMap [])])] [] [])"
        "table_client [(''secrets/'', GMap [(''options'', GMap [])])] [] []"
        "[(''secrets/'', GMap [(''options'', GMap [])])]" None
        "''secrets/''" "copy_cmd ''secrets'' ''backup''" t0] m3 a3 sm
    by blast
  have p4: "\<exists>t'. CopySecrets 1 (copy_env (table_client [] [] []))
           (Some (table_client [kv_mount ''other/'' ''2''] [] []))
           (copy_cmd ''secrets'' ''backup'') t0 = Some (Panics, t') \<and>
         writes t' = writes t0"
    using th [of "Some (table_client [kv_mount ''other/'' ''2''] [] [])"
        "table_client [kv_mount ''other/'' ''2''] [] []" "[kv_mount ''other/'' ''2'']" None
        "''secrets/''" "copy_cmd ''secrets'' ''backup''" t0
        "copy_env (table_client [] [] [])" 1] p1 env
    by blast
  from p1 p2 p3 p4 show ?thesis by blast
qed

text \<open>The claim as stated fails for a mount entry whose \<open>options\<close> map has no \<open>version\<close>
  field: the call returns.\<close>

theorem GetSourceMountVersion_missing_version_counterexample:
  "GetSourceMountVersion
     (Some (table_client
              [(''secrets/'', GMap [(''type'', GString ''kv''), (''options'', GMap [])])] [] []))
     (copy_cmd ''secrets'' ''backup'') t0 = (Returns (''<nil>'', None), t0) \<and>
   fst (GetSourceMountVersion
     (Some (table_client
              [(''secrets/'', GMap [(''type'', GString ''kv''), (''options'', GMap [])])] [] []))
     (copy_cmd ''secrets'' ''backup'') t0) \<noteq> Panics"
  by (simp add: run_defs)

section \<open>An unsupported version\<close>

text \<open>
  Claim C6, as amended. In \<open>CreateSecrets\<close>, a secret whose mount has a version other
  than 1 and 2 is skipped with the log line \<open>unsupported KV version\<close>, nothing is written
  for it, and the loop goes on with the remaining entries. In \<open>CopySecrets\<close> an
  unsupported version of the source mount is fatal: listing fails with
  \<open>unsupported kv version\<close>, the error is logged and the process exits with status 1
  before anything is written.
\<close>

theorem unsupported_version_skip_or_exit:
  "(findMountForSecret ctx secretPath mountsMap t = ((mi, rel, None), t1) \<and>
    Version mi \<noteq> ''1'' \<and> Version mi \<noteq> ''2'' \<longrightarrow>
      CreateSecrets_body ctx client mountsMap (secretPath, payload) t =
        (Next, slog LError ''unsupported KV version''
                 [(''version'', S (Version mi)), (''path'', S secretPath)] t1) \<and>
      CreateSecrets_loop ctx client mountsMap ((secretPath, payload) # rest) t =
        CreateSecrets_loop ctx client mountsMap rest
          (slog LError ''unsupported KV version''
             [(''version'', S (Version mi)), (''path'', S secretPath)] t1)) \<and>
   (fst (GetSourceMountVersion ctx cmd t) = Returns (v, None) \<and> v \<noteq> ''1'' \<and> v \<noteq> ''2'' \<and>
    Getenv os ''VAULT_TARGET_ADDR'' \<noteq> [] \<and> Getenv os ''VAULT_TARGET_TOKEN'' \<noteq> [] \<and>
    vault_New os (Getenv os ''VAULT_TARGET_ADDR'') \<noteq> None \<longrightarrow>
      (\<exists>t'. CopySecrets (Suc fuel) os ctx cmd t = Some (Exits 1, t') \<and>
         writes t' = writes t \<and>
         Log LError ''failed to list secrets under source mount''
           [(''error'', E (New (''unsupported kv version: '' @ v)))] \<in> set (logs t')))"
proof (intro conjI impI)
  assume a: "findMountForSecret ctx secretPath mountsMap t = ((mi, rel, None), t1) \<and>
    Version mi \<noteq> ''1'' \<and> Version mi \<noteq> ''2''"
  then show b: "CreateSecrets_body ctx client mountsMap (secretPath, payload) t =
        (Next, slog LError ''unsupported KV version''
                 [(''version'', S (Version mi)), (''path'', S secretPath)] t1)"
    by (simp add: CreateSecrets_body_def Let_def)
  then show "CreateSecrets_loop ctx client mountsMap ((secretPath, payload) # rest) t =
        CreateSecrets_loop ctx client mountsMap rest
          (slog LError ''unsupported KV version''
             [(''version'', S (Version mi)), (''path'', S secretPath)] t1)"
    by simp
next
  assume a: "fst (GetSourceMountVersion ctx cmd t) = Returns (v, None) \<and> v \<noteq> ''1'' \<and> v \<noteq> ''2'' \<and>
    Getenv os ''VAULT_TARGET_ADDR'' \<noteq> [] \<and> Getenv os ''VAULT_TARGET_TOKEN'' \<noteq> [] \<and>
    vault_New os (Getenv os ''VAULT_TARGET_ADDR'') \<noteq> None"
  obtain r0 es where g: "\<And>u. GetSourceMountVersion ctx cmd u = (r0, add_logs es u)"
    using GetSourceMountVersion_trace [of ctx cmd] by blast
  with a have r0: "r0 = Returns (v, None)" by simp
  from a obtain sc where sc: "ctx = Some sc"
    by (cases ctx) (auto simp: GetSourceMountVersion_def GetVaultClient_def)
  then have c: "\<And>u. GetVaultClient ctx u = (Some sc, u)" by simp
  from a obtain tc where tc: "vault_New os (Getenv os ''VAULT_TARGET_ADDR'') = Some tc"
    by blast
  from a show "\<exists>t'. CopySecrets (Suc fuel) os ctx cmd t = Some (Exits 1, t') \<and>
         writes t' = writes t \<and>
         Log LError ''failed to list secrets under source mount''
           [(''error'', E (New (''unsupported kv version: '' @ v)))] \<in> set (logs t')"
    by (cases "SetToken tc (Getenv os ''VAULT_TARGET_TOKEN'')")
       (simp_all add: CopySecrets_def SetToken_on_def ListSecrets_def c g r0 tc Let_def
          slog_add_logs
          traverse_unsupported)
qed

theorem unsupported_version_skip_or_exit_witness:
  "findMountForSecret (Some (table_client [kv_mount ''secrets/'' ''3''] [] [])) ''secrets/app''
     [(''secrets/'', \<lparr>MountPath = ''secrets/'', Version = ''3''\<rparr>)] t0 =
     ((\<lparr>MountPath = ''secrets/'', Version = ''3''\<rparr>, ''app'', None), t0) \<and>
   CreateSecrets_loop (Some (table_client [kv_mount ''secrets/'' ''3''] [] []))
     (table_client [kv_mount ''secrets/'' ''3''] [] [])
     [(''secrets/'', \<lparr>MountPath = ''secrets/'', Version = ''3''\<rparr>)]
     [(''secrets/app'', Some [(''user'', GString ''admin'')])] t0 =
     (Returns None,
      slog LError ''unsupported KV version''
        [(''version'', S ''3''), (''path'', S ''secrets/app'')] t0) \<and>
   fst (GetSourceMountVersion (Some (table_client [kv_mount ''secrets/'' ''3''] [] []))
          (copy_cmd ''secrets'' ''backup'') t0) = Returns (''3'', None) \<and>
   (\<exists>t'. CopySecrets (Suc 0) (copy_env (table_client [] [] []))
           (Some (table_client [kv_mount ''secrets/'' ''3''] [] []))
           (copy_cmd ''secrets'' ''backup'') t0 = Some (Exits 1, t') \<and>
         writes t' = writes t0 \<and>
         Log LError ''failed to list secrets under source mount''
           [(''error'', E (New (''unsupported kv version: '' @ ''3'')))] \<in> set (logs t'))"
proof -
  have f: "findMountForSecret (Some (table_client [kv_mount ''secrets/'' ''3''] [] []))
     ''secrets/app'' [(''secrets/'', \<lparr>MountPath = ''secrets/'', Version = ''3''\<rparr>)] t0 =
     ((\<lparr>MountPath = ''secrets/'', Version = ''3''\<rparr>, ''app'', None), t0)"
    by (simp add: run_defs)
  have v: "fst (GetSourceMountVersion (Some (table_client [kv_mount ''secrets/'' ''3''] [] []))
          (copy_cmd ''secrets'' ''backup'') t0) = Returns (''3'', None)"
    by (simp add: run_defs)
  have env: "Getenv (copy_env (table_client [] [] [])) ''VAULT_TARGET_ADDR'' \<noteq> [] \<and>
      Getenv (copy_env (table_client [] [] [])) ''VAULT_TARGET_TOKEN'' \<noteq> [] \<and>
      vault_New (copy_env (table_client [] [] []))
        (Getenv (copy_env (table_client [] [] [])) ''VAULT_TARGET_ADDR'') \<noteq> None"
    by (simp add: copy_env_def)
  note th = unsupported_version_skip_or_exit
    [of "Some (table_client [kv_mount ''secrets/'' ''3''] [] [])" "''secrets/app''"
        "[(''secrets/'', \<lparr>MountPath = ''secrets/'', Version = ''3''\<rparr>)]" t0
        "\<lparr>MountPath = ''secrets/'', Version = ''3''\<rparr>" "''app''" t0
        "table_client [kv_mount ''secrets/'' ''3''] [] []"
        "Some [(''user'', GString ''admin'')]" "[]"
        "copy_cmd ''secrets'' ''backup''" "''3''" "copy_env (table_client [] [] [])" 0]
  from th f have l: "CreateSecrets_loop (Some (table_client [kv_mount ''secrets/'' ''3''] [] []))
     (table_client [kv_mount ''secrets/'' ''3''] [] [])
     [(''secrets/'', \<lparr>MountPath = ''secrets/'', Version = ''3''\<rparr>)]
     [(''secrets/app'', Some [(''user'', GString ''admin'')])] t0 =
     (Returns None,
      slog LError ''unsupported KV version''
        [(''version'', S ''3''), (''path'', S ''secrets/app'')] t0)"
    by simp
  from th v env have c: "\<exists>t'. CopySecrets (Suc 0) (copy_env (table_client [] [] []))
           (Some (table_client [kv_mount ''secrets/'' ''3''] [] []))
           (copy_cmd ''secrets'' ''backup'') t0 = Some (Exits 1, t') \<and>
         writes t' = writes t0 \<and>
         Log LError ''failed to list secrets under source mount''
           [(''error'', E (New (''unsupported kv version: '' @ ''3'')))] \<in> set (logs t')"
    by simp
  from f l v c show ?thesis by blast
qed

text \<open>The claim as stated fails for \<open>copy\<close>: a source mount of version 3 ends the run
  with exit status 1.\<close>

theorem CopySecrets_unsupported_version_counterexample:
  "CopySecrets 1 (copy_env (table_client [kv_mount ''backup/'' ''2''] [] []))
     (Some (table_client [kv_mount ''secrets/'' ''3''] [([], [''a''])]
              [(''a'', Some [(''k'', GString ''v'')])]))
     (copy_cmd ''secrets'' ''backup'') t0 =
   Some (Exits 1,
     \<lparr>logs = [Log LError ''failed to list secrets under source mount''
                [(''error'', E (New ''unsupported kv version: 3''))]],
      writes = []\<rparr>)"
  by (simp add: run_defs)

section \<open>Nil and empty payloads\<close>

lemma CopySecrets_body_v1_read_ok:
  "KvV1Read sc (TrimPrefix fullPath (TrimSuffix sm ''/'' @ ''/'')) sm = (Some payload, None) \<Longrightarrow>
   \<exists>t'. CopySecrets_body sc (Some tc) sm tm ''1'' fullPath t = (Next, t') \<and>
      writes t' = writes t @ [V1Write (TrimPrefix fullPath (TrimSuffix sm ''/'' @ ''/'')) payload tm] \<and>
      warnings t' = warnings t @
        (if payload = None
         then [Log LWarn ''no data found at KV v1 secret'' [(''path'', S fullPath)]]
         else [])"
  by (cases "KvV1Write tc (TrimPrefix fullPath (TrimSuffix sm ''/'' @ ''/'')) payload tm")
     (simp_all add: CopySecrets_body_def Let_def slog_def sent_def warnings_def)

lemma CopySecrets_body_v2_read_ok:
  "KvV2Read sc (TrimPrefix fullPath (TrimSuffix sm ''/'' @ ''/'')) sm = (Some payload, None) \<Longrightarrow>
   \<exists>t'. CopySecrets_body sc (Some tc) sm tm ''2'' fullPath t = (Next, t') \<and>
      writes t' = writes t @ [V2Write (TrimPrefix fullPath (TrimSuffix sm ''/'' @ ''/'')) payload tm] \<and>
      warnings t' = warnings t @
        (if payload = None
         then [Log LWarn ''no data found at KV v2 secret'' [(''path'', S fullPath)]]
         else [])"
proof -
  assume r: "KvV2Read sc (TrimPrefix fullPath (TrimSuffix sm ''/'' @ ''/'')) sm = (Some payload, None)"
  obtain resp e where w: "KvV2Write tc (TrimPrefix fullPath (TrimSuffix sm ''/'' @ ''/'')) payload tm = (resp, e)"
    by (cases "KvV2Write tc (TrimPrefix fullPath (TrimSuffix sm ''/'' @ ''/'')) payload tm")
  show ?thesis
    by (cases e) (simp_all add: CopySecrets_body_def r w Let_def slog_def sent_def warnings_def)
qed

text \<open>
  Claim C9, as amended. When the read of a secret succeeds and its payload is nil or
  empty, the loop body of \<open>CopySecrets\<close> sends exactly one write of that payload to the
  target mount, at the relative path it read from, and goes on to the next path. It logs
  the warning \<open>no data found\<close> when the payload is nil, and no warning when the payload is
  an empty map that is not nil.
\<close>

theorem CopySecrets_body_nil_or_empty_payload:
  "rel = TrimPrefix fullPath (TrimSuffix sm ''/'' @ ''/'') \<and>
   (v = ''1'' \<and> KvV1Read sc rel sm = (Some payload, None) \<or>
    v = ''2'' \<and> KvV2Read sc rel sm = (Some payload, None)) \<and>
   (payload = None \<or> payload = Some []) \<longrightarrow>
   (\<exists>t'. CopySecrets_body sc (Some tc) sm tm v fullPath t = (Next, t') \<and>
      writes t' = writes t @ [if v = ''1'' then V1Write rel payload tm
                              else V2Write rel payload tm] \<and>
      warnings t' = warnings t @
        (if payload = None
         then [Log LWarn (''no data found at KV v'' @ v @ '' secret'') [(''path'', S fullPath)]]
         else []))"
proof
  assume a: "rel = TrimPrefix fullPath (TrimSuffix sm ''/'' @ ''/'') \<and>
   (v = ''1'' \<and> KvV1Read sc rel sm = (Some payload, None) \<or>
    v = ''2'' \<and> KvV2Read sc rel sm = (Some payload, None)) \<and>
   (payload = None \<or> payload = Some [])"
  then consider "v = ''1''" "KvV1Read sc rel sm = (Some payload, None)"
    | "v = ''2''" "KvV2Read sc rel sm = (Some payload, None)" by blast
  then show "\<exists>t'. CopySecrets_body sc (Some tc) sm tm v fullPath t = (Next, t') \<and>
      writes t' = writes t @ [if v = ''1'' then V1Write rel payload tm
                              else V2Write rel payload tm] \<and>
      warnings t' = warnings t @
        (if payload = None
         then [Log LWarn (''no data found at KV v'' @ v @ '' secret'') [(''path'', S fullPath)]]
         else [])"
  proof cases
    case 1
    with a CopySecrets_body_v1_read_ok [of sc fullPath sm payload tc tm t]
    show ?thesis by auto
  next
    case 2
    with a CopySecrets_body_v2_read_ok [of sc fullPath sm payload tc tm t]
    show ?thesis by auto
  qed
qed

theorem CopySecrets_body_nil_or_empty_payload_witness:
  "KvV2Read (table_client [kv_mount ''secrets/'' ''2''] [([], [''a''])] [(''a'', None)])
     (TrimPrefix ''secrets/a'' (TrimSuffix ''secrets'' ''/'' @ ''/'')) ''secrets'' =
     (Some None, None) \<and>
   (\<exists>t'. CopySecrets_body
           (table_client [kv_mount ''secrets/'' ''2''] [([], [''a''])] [(''a'', None)])
           (Some (table_client [] [] [])) ''secrets'' ''backup'' ''2'' ''secrets/a'' t0 =
           (Next, t') \<and>
      writes t' = writes t0 @ [V2Write ''a'' None ''backup''] \<and>
      warnings t' = warnings t0 @
        [Log LWarn ''no data found at KV v2 secret'' [(''path'', S ''secrets/a'')]])"
proof -
  have rel: "TrimPrefix ''secrets/a'' (TrimSuffix ''secrets'' ''/'' @ ''/'') = ''a''"
    by (simp add: TrimPrefix_def TrimSuffix_def HasPrefix_def HasSuffix_def suffix_to_prefix)
  have r: "KvV2Read (table_client [kv_mount ''secrets/'' ''2''] [([], [''a''])] [(''a'', None)])
     ''a'' ''secrets'' = (Some None, None)"
    by (simp add: table_client_def)
  from CopySecrets_body_nil_or_empty_payload
    [of "''a''" "''secrets/a''" "''secrets''" "''2''"
        "table_client [kv_mount ''secrets/'' ''2''] [([], [''a''])] [(''a'', None)]" None
        "table_client [] [] []" "''backup''" t0] rel r
  show ?thesis by simp
qed

text \<open>The claim as stated fails for a payload that is empty but not nil: it is written
  without a warning.\<close>

theorem CopySecrets_body_empty_payload_counterexample:
  "CopySecrets_body
     (table_client [kv_mount ''secrets/'' ''1''] [([], [''a''])] [(''a'', Some [])])
     (Some (table_client [kv_mount ''backup/'' ''1''] [] [])) ''secrets'' ''backup'' ''1''
     ''secrets/a'' t0 =
     (Next,
      \<lparr>logs = [Log LInfo ''successfully copied KV v1 secret'' [(''path'', S ''a'')]],
       writes = [V1Write ''a'' (Some []) ''backup'']\<rparr>) \<and>
   warnings \<lparr>logs = [Log LInfo ''successfully copied KV v1 secret'' [(''path'', S ''a'')]],
            writes = [V1Write ''a'' (Some []) ''backup'']\<rparr> = []"
  by (simp add: run_defs warnings_def)

section \<open>Where the code falls short of what it sets out to do\<close>

text \<open>
  Claim C1 fails on the code for a version-2 read error. The version-1 branch logs the
  read error and continues with the next path; the version-2 branch logs it and goes on
  to dereference the nil response. With the secrets \<open>a\<close> and \<open>b\<close> listed and the read of
  \<open>a\<close> failing, the run panics and \<open>b\<close> is never copied.
\<close>

theorem CopySecrets_v2_read_error_panics:
  "CopySecrets (Suc fuel) (copy_env (table_client [kv_mount ''backup/'' ''2''] [] []))
     (Some (table_client [kv_mount ''secrets/'' ''2''] [([], [''a'', ''b''])]
              [(''b'', Some [(''k'', GString ''v'')])]))
     (copy_cmd ''secrets'' ''backup'') t0 =
   Some (Panics,
     \<lparr>logs = [Log LError ''failed to read KV v2 secret''
                [(''path'', S ''secrets/a''), (''error'', E (Lib ''404 Not Found''))]],
      writes = []\<rparr>)"
  by (simp add: run_defs)

text \<open>In general: a version-2 read that fails with a nil response makes the loop body
  panic, where a version-1 read that fails makes it log and go on.\<close>

lemma CopySecrets_body_v2_read_error:
  "KvV2Read sc (TrimPrefix fullPath (TrimSuffix sm ''/'' @ ''/'')) sm = (None, Some err) \<Longrightarrow>
   CopySecrets_body sc tc sm tm ''2'' fullPath t =
     (Panic, slog LError ''failed to read KV v2 secret''
               [(''path'', S fullPath), (''error'', E (Lib err))] t)"
  by (simp add: CopySecrets_body_def Let_def)

lemma CopySecrets_body_v1_read_error:
  "KvV1Read sc (TrimPrefix fullPath (TrimSuffix sm ''/'' @ ''/'')) sm = (response, Some err) \<Longrightarrow>
   CopySecrets_body sc tc sm tm ''1'' fullPath t =
     (Next, slog LError ''failed to read KV v1 secret''
              [(''path'', S fullPath), (''error'', E (Lib err))] t)"
  by (simp add: CopySecrets_body_def Let_def split: option.splits)

lemma CopySecrets_v1_read_error_skips:
  "CopySecrets (Suc fuel) (copy_env (table_client [kv_mount ''backup/'' ''1''] [] []))
     (Some (table_client [kv_mount ''secrets/'' ''1''] [([], [''a'', ''b''])]
              [(''b'', Some [(''k'', GString ''v'')])]))
     (copy_cmd ''secrets'' ''backup'') t0 =
   Some (Returns None,
     \<lparr>logs = [Log LError ''failed to read KV v1 secret''
                [(''path'', S ''secrets/a''), (''error'', E (Lib ''404 Not Found''))],
              Log LInfo ''successfully copied KV v1 secret'' [(''path'', S ''b'')]],
      writes = [V1Write ''b'' (Some [(''k'', GString ''v'')]) ''backup'']\<rparr>)"
  by (simp add: run_defs)

text \<open>
  When \<open>vault.New\<close> fails its error is dropped and \<open>targetClient\<close> is nil. \<open>SetToken\<close> on the
  nil client returns an error for a malformed token, which is only logged: the run goes
  on through the version detection and the listing, and panics at the first write. With
  nothing to copy it returns normally. For a well-formed token \<open>SetToken\<close> itself
  dereferences the nil client.
\<close>

lemma CopySecrets_nil_target_malformed_token:
  "CopySecrets (Suc fuel)
     ((copy_env tgt)\<lparr>vault_New := (\<lambda>addr. None),
                      validateToken := (\<lambda>tok. Some ''invalid token'')\<rparr>)
     (Some (table_client [kv_mount ''secrets/'' ''1''] [([], [''a'', ''b''])]
              [(''b'', Some [(''k'', GString ''v'')])]))
     (copy_cmd ''secrets'' ''backup'') t0 =
   Some (Panics,
     \<lparr>logs = [Log LError ''Failed to initialize target vault client''
                [(''error'', E (Lib ''invalid token''))],
              Log LError ''failed to read KV v1 secret''
                [(''path'', S ''secrets/a''), (''error'', E (Lib ''404 Not Found''))]],
      writes = []\<rparr>)"
  by (simp add: run_defs)

lemma CopySecrets_nil_target_nothing_to_copy:
  "CopySecrets (Suc fuel)
     ((copy_env tgt)\<lparr>vault_New := (\<lambda>addr. None),
                      validateToken := (\<lambda>tok. Some ''invalid token'')\<rparr>)
     (Some (table_client [kv_mount ''secrets/'' ''1''] [([], [])] []))
     (copy_cmd ''secrets'' ''backup'') t0 =
   Some (Returns None,
     \<lparr>logs = [Log LError ''Failed to initialize target vault client''
                [(''error'', E (Lib ''invalid token''))]],
      writes = []\<rparr>)"
  by (simp add: run_defs)

lemma CopySecrets_nil_target_valid_token:
  "CopySecrets fuel
     ((copy_env tgt)\<lparr>vault_New := (\<lambda>addr. None)\<rparr>)
     (Some src) (copy_cmd ''secrets'' ''backup'') t0 = Some (Panics, t0)"
  by (simp add: CopySecrets_def SetToken_on_def GetVaultClient_def copy_env_def)

text \<open>
  Claim C4 fails on the code. \<open>GetSecretEngines\<close> reports a mount without a \<open>version\<close>
  option with the empty version, and its comment says the empty version is to be treated
  as version 1; \<open>CreateSecrets\<close> has no case for it, logs \<open>unsupported KV version\<close> and
  writes nothing.
\<close>

theorem CreateSecrets_versionless_mount_not_written:
  "GetSecretEngines (Some (table_client [(''secrets/'', GMap [(''type'', GString ''kv'')])] [] []))
     t0 = (Returns ([(''secrets/'', \<lparr>MountPath = ''secrets/'', Version = []\<rparr>)], None), t0) \<and>
   CreateSecrets (create_env [(''secrets/app/db'', Some [(''user'', GString ''admin'')])])
     (Some (table_client [(''secrets/'', GMap [(''type'', GString ''kv'')])] [] []))
     (create_cmd ''secrets.json'') t0 =
   (Returns None,
    \<lparr>logs = [Log LError ''unsupported KV version''
               [(''version'', S []), (''path'', S ''secrets/app/db'')]],
     writes = []\<rparr>)"
  by (simp add: run_defs)

text \<open>
  Claim C5 fails on the code. When no mount is a prefix of the path,
  \<open>findMountForSecret\<close> returns the zero \<open>MountInfo\<close> and a nil error, so the branch of
  \<open>CreateSecrets\<close> that logs \<open>mount not found for secret\<close> is not taken; the secret is
  dropped by the version switch instead, logged as \<open>unsupported KV version\<close>.
\<close>

theorem findMountForSecret_no_match_returns_nil_error:
  "findMountForSecret (Some (table_client [kv_mount ''secrets/'' ''2''] [] [])) ''other/app''
     [(''secrets/'', \<lparr>MountPath = ''secrets/'', Version = ''2''\<rparr>)] t0 =
     ((\<lparr>MountPath = [], Version = []\<rparr>, ''other/app'', None), t0) \<and>
   CreateSecrets (create_env [(''other/app'', Some [(''user'', GString ''admin'')])])
     (Some (table_client [kv_mount ''secrets/'' ''2''] [] []))
     (create_cmd ''secrets.json'') t0 =
   (Returns None,
    \<lparr>logs = [Log LError ''unsupported KV version''
               [(''version'', S []), (''path'', S ''other/app'')]],
     writes = []\<rparr>)"
  by (simp add: run_defs)

text \<open>In general: with the client in the context, \<open>findMountForSecret\<close> returns a nil
  error for every path and every mount map.\<close>

lemma findMountForSecret_never_fails:
  "snd (snd (fst (findMountForSecret (Some client) P ms t))) = None"
  by (simp add: findMountForSecret_def Let_def)

section \<open>The traversal\<close>

lemma reach_refl [simp]: "reach c v m p p"
  by (simp add: reach_def)

lemma reach_unfold:
  "reach c v m cur p \<longleftrightarrow> p = cur \<or> (\<exists>q. namespace_step c v m cur q \<and> reach c v m q p)"
  unfolding reach_def
  by (metis converse_rtranclpE converse_rtranclp_into_rtranclp rtranclp.rtrancl_refl)

lemma leaves_listed:
  assumes "ListKeys c v m cur = (Some keys, None)"
  shows "leaves c v m cur = keys_leaves c v m cur keys"
proof (rule set_eqI, rule iffI)
  fix x
  assume "x \<in> leaves c v m cur"
  then obtain p ks k where x: "x = Join [m, Join [p, k]]" and r: "reach c v m cur p"
    and l: "ListKeys c v m p = (Some ks, None)" and k: "k \<in> set ks" "\<not> HasSuffix k ''/''"
    by (auto simp: leaves_def)
  from r [unfolded reach_unfold [of c v m cur p]]
  show "x \<in> keys_leaves c v m cur keys"
  proof
    assume "p = cur"
    with assms l k x show ?thesis by (auto simp: keys_leaves_def)
  next
    assume "\<exists>q. namespace_step c v m cur q \<and> reach c v m q p"
    then obtain q where q: "namespace_step c v m cur q" "reach c v m q p" by blast
    with assms obtain k' where k': "k' \<in> set keys" "HasSuffix k' ''/''" "q = Join [cur, k']"
      by (auto simp: namespace_step_def)
    from q l k x have "x \<in> leaves c v m q" by (auto simp: leaves_def)
    with k' show ?thesis by (auto simp: keys_leaves_def)
  qed
next
  fix x
  assume "x \<in> keys_leaves c v m cur keys"
  then obtain k where k: "k \<in> set keys"
    and x: "if HasSuffix k ''/'' then x \<in> leaves c v m (Join [cur, k])
            else x = Join [m, Join [cur, k]]"
    by (auto simp: keys_leaves_def split: if_splits)
  show "x \<in> leaves c v m cur"
  proof (cases "HasSuffix k ''/''")
    case True
    with assms k have s: "namespace_step c v m cur (Join [cur, k])"
      by (auto simp: namespace_step_def)
    from True x obtain p ks k' where "x = Join [m, Join [p, k']]"
      "reach c v m (Join [cur, k]) p" "ListKeys c v m p = (Some ks, None)"
      "k' \<in> set ks" "\<not> HasSuffix k' ''/''"
      by (auto simp: leaves_def)
    moreover from this s have "reach c v m cur p"
      using reach_unfold [of c v m cur p] by blast
    ultimately show ?thesis unfolding leaves_def by blast
  next
    case False
    with assms k x show ?thesis unfolding leaves_def by force
  qed
qed

lemma leaves_unlisted:
  assumes "\<And>keys. ListKeys c v m cur \<noteq> (Some keys, None)"
  shows "leaves c v m cur = {}"
proof -
  have "\<And>p. reach c v m cur p \<Longrightarrow> p = cur"
    using assms by (subst (asm) reach_unfold) (auto simp: namespace_step_def)
  with assms show ?thesis by (auto simp: leaves_def)
qed

lemma keys_leaves_Nil [simp]: "keys_leaves c v m cur [] = {}"
  by (simp add: keys_leaves_def)

lemma keys_leaves_Cons:
  "keys_leaves c v m cur (k # ks) =
     (if HasSuffix k ''/'' then leaves c v m (Join [cur, k])
      else {Join [m, Join [cur, k]]}) \<union> keys_leaves c v m cur ks"
  by (auto simp: keys_leaves_def)

text \<open>The three ways one key takes the loop of \<open>traverse\<close>.\<close>

lemma for_keys_leaf:
  "\<not> HasSuffix k ''/'' \<Longrightarrow>
   for_keys rec m cur (k # ks) st =
     for_keys rec m cur ks (fst st @ [Join [m, Join [cur, k]]], snd st)"
  by (simp add: Let_def)

lemma for_keys_namespace_ok:
  "HasSuffix k ''/'' \<Longrightarrow> rec (Join [cur, k]) st = Some (Returns None, st1) \<Longrightarrow>
   for_keys rec m cur (k # ks) st = for_keys rec m cur ks st1"
  by (simp add: Let_def)

lemma for_keys_namespace_stop:
  "HasSuffix k ''/'' \<Longrightarrow> rec (Join [cur, k]) st = Some (r, st1) \<Longrightarrow> r \<noteq> Returns None \<Longrightarrow>
   for_keys rec m cur (k # ks) st = Some (r, st1)"
  by (auto simp: Let_def split: outcome.splits option.splits)

lemma for_keys_namespace_None:
  "HasSuffix k ''/'' \<Longrightarrow> rec (Join [cur, k]) st = None \<Longrightarrow>
   for_keys rec m cur (k # ks) st = None"
  by (simp add: Let_def)

text \<open>An induction rule for a run of the loop that ends.\<close>

lemma for_keys_cases:
  assumes run: "for_keys rec m cur keys st = Some (r, st')"
    and nil: "\<And>st. Q [] st (Returns None) st"
    and leaf: "\<And>k ks st r st'. \<not> HasSuffix k ''/'' \<Longrightarrow>
        Q ks (fst st @ [Join [m, Join [cur, k]]], snd st) r st' \<Longrightarrow> Q (k # ks) st r st'"
    and ok: "\<And>k ks st st1 r st'. HasSuffix k ''/'' \<Longrightarrow>
        rec (Join [cur, k]) st = Some (Returns None, st1) \<Longrightarrow> Q ks st1 r st' \<Longrightarrow>
        Q (k # ks) st r st'"
    and stop: "\<And>k ks st r st1. HasSuffix k ''/'' \<Longrightarrow>
        rec (Join [cur, k]) st = Some (r, st1) \<Longrightarrow> r \<noteq> Returns None \<Longrightarrow>
        Q (k # ks) st r st1"
  shows "Q keys st r st'"
  using run
proof (induction keys arbitrary: st)
  case Nil
  then show ?case using nil by simp
next
  case (Cons k ks)
  show ?case
  proof (cases "HasSuffix k ''/''")
    case False
    with Cons.prems
    have "for_keys rec m cur ks (fst st @ [Join [m, Join [cur, k]]], snd st) = Some (r, st')"
      by (simp add: for_keys_leaf)
    from leaf [OF False Cons.IH [OF this]] show ?thesis .
  next
    case True
    show ?thesis
    proof (cases "rec (Join [cur, k]) st")
      case None
      with True Cons.prems show ?thesis by (simp add: for_keys_namespace_None)
    next
      case (Some a)
      obtain r1 st1 where a: "a = (r1, st1)" by (cases a)
      show ?thesis
      proof (cases "r1 = Returns None")
        case r1: True
        with True Some a Cons.prems have "for_keys rec m cur ks st1 = Some (r, st')"
          by (simp add: for_keys_namespace_ok)
        from ok [OF True _ Cons.IH [OF this]] Some a r1 show ?thesis by simp
      next
        case r1: False
        with True Some a Cons.prems have "r = r1" "st' = st1"
          by (auto simp: Let_def split: outcome.splits option.splits)
        with stop [OF True _ r1] Some a show ?thesis by simp
      qed
    qed
  qed
qed

lemma for_keys_leaves:
  assumes rec: "\<And>p st r st'. rec p st = Some (r, st') \<Longrightarrow>
      \<exists>xs. fst st' = fst st @ xs \<and> set xs \<subseteq> leaves c v m p \<and>
        (r = Returns None \<longrightarrow> set xs = leaves c v m p)"
    and run: "for_keys rec m cur keys st = Some (r, st')"
  shows "\<exists>xs. fst st' = fst st @ xs \<and> set xs \<subseteq> keys_leaves c v m cur keys \<and>
           (r = Returns None \<longrightarrow> set xs = keys_leaves c v m cur keys)"
  using run
proof (induction rule: for_keys_cases [consumes 1, case_names nil leaf ok stop])
  case (nil st)
  show ?case by simp
next
  case (leaf k ks st r st')
  then obtain xs where "fst st' = (fst st @ [Join [m, Join [cur, k]]]) @ xs"
    "set xs \<subseteq> keys_leaves c v m cur ks"
    "r = Returns None \<longrightarrow> set xs = keys_leaves c v m cur ks"
    by auto
  with leaf(1) show ?case
    by (intro exI [of _ "Join [m, Join [cur, k]] # xs"]) (auto simp: keys_leaves_Cons)
next
  case (ok k ks st st1 r st')
  from rec [OF ok(2)] obtain xs1 where
    x1: "fst st1 = fst st @ xs1" "set xs1 = leaves c v m (Join [cur, k])" by auto
  from ok(3) obtain xs where "fst st' = fst st1 @ xs"
    "set xs \<subseteq> keys_leaves c v m cur ks"
    "r = Returns None \<longrightarrow> set xs = keys_leaves c v m cur ks"
    by auto
  with x1 ok(1) show ?case
    by (intro exI [of _ "xs1 @ xs"]) (auto simp: keys_leaves_Cons)
next
  case (stop k ks st r st1)
  from rec [OF stop(2)] obtain xs1 where
    "fst st1 = fst st @ xs1" "set xs1 \<subseteq> leaves c v m (Join [cur, k])" by auto
  with stop(1,3) show ?case
    by (intro exI [of _ xs1]) (auto simp: keys_leaves_Cons)
qed

lemma traverse_leaves:
  assumes v: "v = ''1'' \<or> v = ''2''"
  shows "traverse n c m v cur st = Some (r, st') \<Longrightarrow>
    \<exists>xs. fst st' = fst st @ xs \<and> set xs \<subseteq> leaves c v m cur \<and>
      (r = Returns None \<longrightarrow> set xs = leaves c v m cur)"
proof (induction n arbitrary: cur st r st')
  case 0
  then show ?case by simp
next
  case (Suc n)
  obtain response err where l: "ListKeys c v m cur = (response, err)"
    by (cases "ListKeys c v m cur")
  show ?case
  proof (cases "\<exists>keys. response = Some keys \<and> err = None")
    case True
    then obtain keys where k: "response = Some keys" "err = None" by blast
    with Suc.prems l have run: "for_keys (traverse n c m v) m cur keys st = Some (r, st')"
      by (simp add: traverse_Suc [OF v])
    from Suc.IH run have
      "\<exists>xs. fst st' = fst st @ xs \<and> set xs \<subseteq> keys_leaves c v m cur keys \<and>
           (r = Returns None \<longrightarrow> set xs = keys_leaves c v m cur keys)"
      by (rule for_keys_leaves [where rec = "traverse n c m v"])
    with leaves_listed [of c v m cur keys] l k
    show ?thesis by simp
  next
    case False
    with l have "leaves c v m cur = {}" by (intro leaves_unlisted) auto
    moreover from False Suc.prems l have "fst st' = fst st"
      by (auto simp: traverse_Suc [OF v] split: if_splits option.splits)
    ultimately show ?thesis by simp
  qed
qed

lemma reach_keys_Nil [simp]: "\<not> reach_keys c v m cur [] p"
  by (simp add: reach_keys_def)

lemma reach_keys_Cons:
  "reach_keys c v m cur (k # ks) p \<longleftrightarrow>
     HasSuffix k ''/'' \<and> reach c v m (Join [cur, k]) p \<or> reach_keys c v m cur ks p"
  by (auto simp: reach_keys_def)

lemma reach_listed:
  "ListKeys c v m cur = (Some keys, None) \<Longrightarrow>
   reach c v m cur p \<longleftrightarrow> p = cur \<or> reach_keys c v m cur keys p"
  by (subst reach_unfold) (auto simp: namespace_step_def reach_keys_def)

lemma reach_unlisted:
  "(\<And>keys. ListKeys c v m cur \<noteq> (Some keys, None)) \<Longrightarrow> reach c v m cur p \<longleftrightarrow> p = cur"
  by (subst reach_unfold) (auto simp: namespace_step_def)

lemma for_keys_result:
  assumes rec: "\<And>p st r st'. rec p st = Some (r, st') \<Longrightarrow>
      (r = Returns None \<longrightarrow>
         (\<forall>q. reach c v m p q \<longrightarrow> \<not> nil_listing c v m q \<and> (\<forall>e. \<not> listing_failed c v m q e))) \<and>
      (\<forall>e. r = Returns (Some e) \<longrightarrow> (\<exists>q. reach c v m p q \<and> listing_failed c v m q e)) \<and>
      (r = Panics \<longrightarrow> (\<exists>q. reach c v m p q \<and> nil_listing c v m q)) \<and>
      (\<forall>n. r \<noteq> Exits n)"
    and run: "for_keys rec m cur keys st = Some (r, st')"
  shows "(r = Returns None \<longrightarrow>
         (\<forall>q. reach_keys c v m cur keys q \<longrightarrow>
            \<not> nil_listing c v m q \<and> (\<forall>e. \<not> listing_failed c v m q e))) \<and>
      (\<forall>e. r = Returns (Some e) \<longrightarrow> (\<exists>q. reach_keys c v m cur keys q \<and> listing_failed c v m q e)) \<and>
      (r = Panics \<longrightarrow> (\<exists>q. reach_keys c v m cur keys q \<and> nil_listing c v m q)) \<and>
      (\<forall>n. r \<noteq> Exits n)"
  using run
proof (induction rule: for_keys_cases [consumes 1, case_names nil leaf ok stop])
  case (nil st)
  show ?case by simp
next
  case (leaf k ks st r st')
  then show ?case by (simp add: reach_keys_Cons)
next
  case (ok k ks st st1 r st')
  from rec [OF ok(2)] have
    "\<forall>q. reach c v m (Join [cur, k]) q \<longrightarrow>
       \<not> nil_listing c v m q \<and> (\<forall>e. \<not> listing_failed c v m q e)"
    by simp
  with ok(1,3) show ?case
    by (simp add: reach_keys_Cons) blast
next
  case (stop k ks st r st1)
  from rec [OF stop(2)] stop(1,3) show ?case
    by (simp add: reach_keys_Cons) blast
qed

lemma traverse_result:
  assumes v: "v = ''1'' \<or> v = ''2''"
  shows "traverse n c m v cur st = Some (r, st') \<Longrightarrow>
      (r = Returns None \<longrightarrow>
         (\<forall>q. reach c v m cur q \<longrightarrow> \<not> nil_listing c v m q \<and> (\<forall>e. \<not> listing_failed c v m q e))) \<and>
      (\<forall>e. r = Returns (Some e) \<longrightarrow> (\<exists>q. reach c v m cur q \<and> listing_failed c v m q e)) \<and>
      (r = Panics \<longrightarrow> (\<exists>q. reach c v m cur q \<and> nil_listing c v m q)) \<and>
      (\<forall>n. r \<noteq> Exits n)"
proof (induction n arbitrary: cur st r st')
  case 0
  then show ?case by simp
next
  case (Suc n)
  obtain response err where l: "ListKeys c v m cur = (response, err)"
    by (cases "ListKeys c v m cur")
  show ?case
  proof (cases "\<exists>keys. response = Some keys \<and> err = None")
    case True
    then obtain keys where k: "response = Some keys" "err = None" by blast
    with Suc.prems l have run: "for_keys (traverse n c m v) m cur keys st = Some (r, st')"
      by (simp add: traverse_Suc [OF v])
    from k l have here: "\<not> nil_listing c v m cur" "\<And>e. \<not> listing_failed c v m cur e"
      by (simp_all add: nil_listing_def listing_failed_def)
    from k l have re: "\<And>p. reach c v m cur p \<longleftrightarrow> p = cur \<or> reach_keys c v m cur keys p"
      by (simp add: reach_listed)
    from Suc.IH run have
      "(r = Returns None \<longrightarrow>
         (\<forall>q. reach_keys c v m cur keys q \<longrightarrow>
            \<not> nil_listing c v m q \<and> (\<forall>e. \<not> listing_failed c v m q e))) \<and>
      (\<forall>e. r = Returns (Some e) \<longrightarrow> (\<exists>q. reach_keys c v m cur keys q \<and> listing_failed c v m q e)) \<and>
      (r = Panics \<longrightarrow> (\<exists>q. reach_keys c v m cur keys q \<and> nil_listing c v m q)) \<and>
      (\<forall>n. r \<noteq> Exits n)"
      by (rule for_keys_result [where rec = "traverse n c m v"])
    with here show ?thesis unfolding re by blast
  next
    case False
    with l have re: "\<And>p. reach c v m cur p \<longleftrightarrow> p = cur"
      by (intro reach_unlisted) auto
    from False Suc.prems l show ?thesis
      unfolding re
      by (auto simp: traverse_Suc [OF v] nil_listing_def listing_failed_def
          split: if_splits option.splits)
  qed
qed

lemma for_keys_logs:
  assumes rec: "\<And>p st r st'. rec p st = Some (r, st') \<Longrightarrow>
      \<exists>es. snd st' = add_logs es (snd st) \<and>
        (r = Returns None \<longrightarrow>
           (\<forall>q. reach c v m p q \<and> not_found c v m q \<longrightarrow> log404 q \<in> set es))"
    and run: "for_keys rec m cur keys st = Some (r, st')"
  shows "\<exists>es. snd st' = add_logs es (snd st) \<and>
        (r = Returns None \<longrightarrow>
           (\<forall>q. reach_keys c v m cur keys q \<and> not_found c v m q \<longrightarrow> log404 q \<in> set es))"
  using run
proof (induction rule: for_keys_cases [consumes 1, case_names nil leaf ok stop])
  case (nil st)
  show ?case by (intro exI [of _ "[]"]) simp
next
  case (leaf k ks st r st')
  then show ?case by (simp add: reach_keys_Cons)
next
  case (ok k ks st st1 r st')
  from rec [OF ok(2)] obtain es1 where e1: "snd st1 = add_logs es1 (snd st)"
    "\<forall>q. reach c v m (Join [cur, k]) q \<and> not_found c v m q \<longrightarrow> log404 q \<in> set es1"
    by auto
  from ok(3) obtain es where e: "snd st' = add_logs es (snd st1)"
    "r = Returns None \<longrightarrow>
       (\<forall>q. reach_keys c v m cur ks q \<and> not_found c v m q \<longrightarrow> log404 q \<in> set es)"
    by auto
  from e1 e show ?case
    by (intro exI [of _ "es1 @ es"]) (auto simp: reach_keys_Cons)
next
  case (stop k ks st r st1)
  from rec [OF stop(2)] stop(3) show ?case by auto
qed

lemma traverse_logs:
  assumes v: "v = ''1'' \<or> v = ''2''"
  shows "traverse n c m v cur st = Some (r, st') \<Longrightarrow>
      \<exists>es. snd st' = add_logs es (snd st) \<and>
        (r = Returns None \<longrightarrow>
           (\<forall>q. reach c v m cur q \<and> not_found c v m q \<longrightarrow> log404 q \<in> set es))"
proof (induction n arbitrary: cur st r st')
  case 0
  then show ?case by simp
next
  case (Suc n)
  obtain response err where l: "ListKeys c v m cur = (response, err)"
    by (cases "ListKeys c v m cur")
  show ?case
  proof (cases "\<exists>keys. response = Some keys \<and> err = None")
    case True
    then obtain keys where k: "response = Some keys" "err = None" by blast
    with Suc.prems l have run: "for_keys (traverse n c m v) m cur keys st = Some (r, st')"
      by (simp add: traverse_Suc [OF v])
    from k l have here: "\<not> not_found c v m cur"
      by (simp add: not_found_def)
    from k l have re: "\<And>p. reach c v m cur p \<longleftrightarrow> p = cur \<or> reach_keys c v m cur keys p"
      by (simp add: reach_listed)
    from Suc.IH run have
      "\<exists>es. snd st' = add_logs es (snd st) \<and>
        (r = Returns None \<longrightarrow>
           (\<forall>q. reach_keys c v m cur keys q \<and> not_found c v m q \<longrightarrow> log404 q \<in> set es))"
      by (rule for_keys_logs [where rec = "traverse n c m v"])
    with here show ?thesis unfolding re by blast
  next
    case False
    with l have re: "\<And>p. reach c v m cur p \<longleftrightarrow> p = cur"
      by (intro reach_unlisted) auto
    from False l consider e where "err = Some e" "Contains e ''404''"
      | e where "err = Some e" "\<not> Contains e ''404''"
      | "response = None" "err = None"
      by (cases err; cases response) auto
    then show ?thesis
    proof cases
      case 1
      with Suc.prems l
      have "r = Returns None" "snd st' = add_logs [log404 cur] (snd st)"
        by (auto simp: traverse_Suc [OF v] slog_add_logs log404_def split: option.splits)
      then show ?thesis unfolding re by (intro exI [of _ "[log404 cur]"]) simp
    next
      case 2
      with Suc.prems l have "r \<noteq> Returns None" "snd st' = add_logs [] (snd st)"
        by (auto simp: traverse_Suc [OF v] split: option.splits)
      then show ?thesis by blast
    next
      case 3
      with Suc.prems l have "r \<noteq> Returns None" "snd st' = add_logs [] (snd st)"
        by (auto simp: traverse_Suc [OF v] split: option.splits)
      then show ?thesis by blast
    qed
  qed
qed

lemma for_keys_mono:
  assumes rec: "\<And>p st x. rec p st = Some x \<Longrightarrow> rec' p st = Some x"
    and run: "for_keys rec m cur keys st = Some (r, st')"
  shows "for_keys rec' m cur keys st = Some (r, st')"
  using run
proof (induction rule: for_keys_cases [consumes 1, case_names nil leaf ok stop])
  case (nil st)
  show ?case by simp
next
  case (leaf k ks st r st')
  then show ?case by (simp add: for_keys_leaf)
next
  case (ok k ks st st1 r st')
  from rec [OF ok(2)] ok(1,3) show ?case by (simp add: for_keys_namespace_ok)
next
  case (stop k ks st r st1)
  from stop(1) rec [OF stop(2)] stop(3) show ?case by (rule for_keys_namespace_stop)
qed

lemma traverse_more_fuel:
  "traverse n c m v cur st = Some x \<Longrightarrow> traverse (Suc n) c m v cur st = Some x"
proof (induction n arbitrary: cur st x)
  case 0
  then show ?case by simp
next
  case (Suc n)
  show ?case
  proof (cases "v = ''1'' \<or> v = ''2''")
    case False
    with Suc.prems show ?thesis by (simp add: traverse_unsupported)
  next
    case True
    obtain r st' where x: "x = (r, st')" by (cases x)
    obtain response err where l: "ListKeys c v m cur = (response, err)"
      by (cases "ListKeys c v m cur")
    show ?thesis
    proof (cases "\<exists>keys. response = Some keys \<and> err = None")
      case k: True
      then obtain keys where k: "response = Some keys" "err = None" by blast
      with Suc.prems l x have run: "for_keys (traverse n c m v) m cur keys st = Some (r, st')"
        by (simp add: traverse_Suc [OF True])
      from Suc.IH run have "for_keys (traverse (Suc n) c m v) m cur keys st = Some (r, st')"
        by (rule for_keys_mono)
      with l k x show ?thesis by (simp add: traverse_Suc [OF True])
    next
      case False
      with Suc.prems l show ?thesis
        by (auto simp: traverse_Suc [OF True] split: option.splits if_splits)
    qed
  qed
qed

lemma ListSecrets_paths:
  assumes "ListSecrets n (Some c) cmd t = Some (Returns (paths, None), t')"
  shows "\<exists>v. (v = ''1'' \<or> v = ''2'') \<and>
           fst (GetSourceMountVersion (Some c) cmd t) = Returns (v, None) \<and>
           set paths = leaves c v (source_mount cmd) []"
proof -
  obtain r0 es where g: "\<And>u. GetSourceMountVersion (Some c) cmd u = (r0, add_logs es u)"
    using GetSourceMountVersion_trace [of "Some c" cmd] by blast
  from assms obtain v t3 where r0: "r0 = Returns (v, None)"
    and tr: "traverse n c (source_mount cmd) v [] ([], add_logs es t) =
               Some (Returns None, (paths, t3))"
    by (auto simp: ListSecrets_def g Let_def
        split: outcome.splits option.splits prod.splits)
  have v: "v = ''1'' \<or> v = ''2''"
  proof (rule ccontr)
    assume "\<not> (v = ''1'' \<or> v = ''2'')"
    with tr show False by (cases n) (simp_all add: traverse_unsupported)
  qed
  from traverse_leaves [OF v tr] have "set paths = leaves c v (source_mount cmd) []" by simp
  with v r0 g show ?thesis by simp
qed


lemma for_keys_returns:
  assumes "\<And>k st. k \<in> set keys \<Longrightarrow> HasSuffix k ''/'' \<Longrightarrow> \<exists>x. rec (Join [cur, k]) st = Some x"
  shows "\<exists>x. for_keys rec m cur keys st = Some x"
  using assms
proof (induction keys arbitrary: st)
  case Nil
  show ?case by simp
next
  case (Cons k ks)
  have rest: "\<And>st. \<exists>x. for_keys rec m cur ks st = Some x"
    using Cons.IH Cons.prems by simp
  show ?case
  proof (cases "HasSuffix k ''/''")
    case False
    from for_keys_leaf [OF False] rest show ?thesis by simp
  next
    case True
    from Cons.prems(1) [of k st] True obtain x where "rec (Join [cur, k]) st = Some x"
      by auto
    then obtain r st1 where r: "rec (Join [cur, k]) st = Some (r, st1)"
      by (cases x) auto
    show ?thesis
    proof (cases "r = Returns None")
      case True
      with \<open>HasSuffix k ''/''\<close> r have "for_keys rec m cur (k # ks) st = for_keys rec m cur ks st1"
        by (simp add: for_keys_namespace_ok)
      with rest [of st1] show ?thesis by simp
    next
      case False
      from \<open>HasSuffix k ''/''\<close> r False
      have "for_keys rec m cur (k # ks) st = Some (r, st1)"
        by (rule for_keys_namespace_stop)
      then show ?thesis by blast
    qed
  qed
qed

lemma traverse_returns:
  "depth_within d c v m cur \<Longrightarrow> \<exists>x. traverse (Suc d) c m v cur st = Some x"
proof (induction d arbitrary: cur st)
  case 0
  show ?case
  proof (cases "v = ''1'' \<or> v = ''2''")
    case False
    then show ?thesis by (simp add: traverse_unsupported)
  next
    case True
    obtain response err where l: "ListKeys c v m cur = (response, err)"
      by (cases "ListKeys c v m cur")
    show ?thesis
    proof (cases "\<exists>keys. response = Some keys \<and> err = None")
      case k: True
      then obtain keys where k: "response = Some keys" "err = None" by blast
      with 0 l have "\<And>key. key \<in> set keys \<Longrightarrow> \<not> HasSuffix key ''/''"
        by (simp add: list_all_iff)
      then have "\<exists>x. for_keys (traverse 0 c m v) m cur keys st = Some x"
        by (intro for_keys_returns) blast
      with l k show ?thesis by (simp add: traverse_Suc [OF True])
    next
      case False
      with l show ?thesis
        by (auto simp: traverse_Suc [OF True] split: option.splits)
    qed
  qed
next
  case (Suc d)
  show ?case
  proof (cases "v = ''1'' \<or> v = ''2''")
    case False
    then show ?thesis by (simp add: traverse_unsupported)
  next
    case True
    obtain response err where l: "ListKeys c v m cur = (response, err)"
      by (cases "ListKeys c v m cur")
    show ?thesis
    proof (cases "\<exists>keys. response = Some keys \<and> err = None")
      case k: True
      then obtain keys where k: "response = Some keys" "err = None" by blast
      with Suc.prems l have
        "\<And>key. key \<in> set keys \<Longrightarrow> HasSuffix key ''/'' \<Longrightarrow> depth_within d c v m (Join [cur, key])"
        by (simp add: list_all_iff)
      then have "\<And>key st. key \<in> set keys \<Longrightarrow> HasSuffix key ''/'' \<Longrightarrow>
          \<exists>x. traverse (Suc d) c m v (Join [cur, key]) st = Some x"
        using Suc.IH by blast
      then have "\<exists>x. for_keys (traverse (Suc d) c m v) m cur keys st = Some x"
        by (rule for_keys_returns)
      with l k show ?thesis by (simp add: traverse_Suc [OF True])
    next
      case False
      with l show ?thesis
        by (auto simp: traverse_Suc [OF True] split: option.splits)
    qed
  qed
qed

lemma traverse_add_fuel:
  "traverse n c m v cur st = Some x \<Longrightarrow> traverse (n + k) c m v cur st = Some x"
proof (induction k)
  case 0
  then show ?case by simp
next
  case (Suc k)
  then have "traverse (Suc (n + k)) c m v cur st = Some x"
    by (intro traverse_more_fuel) simp
  then show ?case by simp
qed

lemma traverse_total:
  assumes d: "depth_within d c v m cur"
  shows "\<exists>r st'. traverse (Suc d + k) c m v cur st = Some (r, st')"
proof -
  from traverse_returns [OF d, of st] obtain x where "traverse (Suc d) c m v cur st = Some x"
    by blast
  from traverse_add_fuel [OF this, of k] show ?thesis by (cases x) auto
qed

lemma traverse_total_ok:
  assumes v: "v = ''1'' \<or> v = ''2''"
    and d: "depth_within d c v m cur"
    and fine: "\<forall>q. reach c v m cur q \<longrightarrow>
        \<not> nil_listing c v m q \<and> (\<forall>e. \<not> listing_failed c v m q e)"
  shows "\<exists>xs es. traverse (Suc d + k) c m v cur st =
        Some (Returns None, (fst st @ xs, add_logs es (snd st))) \<and>
      set xs = leaves c v m cur \<and>
      (\<forall>q. reach c v m cur q \<and> not_found c v m q \<longrightarrow> log404 q \<in> set es)"
proof -
  from traverse_total [OF d] obtain r st' where
    tr: "traverse (Suc d + k) c m v cur st = Some (r, st')" by blast
  have r: "r = Returns None"
  proof (cases r)
    case (Returns x)
    with traverse_result [OF v tr] fine show ?thesis by (cases x) auto
  next
    case (Exits n)
    with traverse_result [OF v tr] show ?thesis by simp
  next
    case Panics
    with traverse_result [OF v tr] fine show ?thesis by auto
  qed
  from traverse_leaves [OF v tr] r obtain xs where
    xs: "fst st' = fst st @ xs" "set xs = leaves c v m cur" by blast
  from traverse_logs [OF v tr] r obtain es where
    es: "snd st' = add_logs es (snd st)"
      "\<forall>q. reach c v m cur q \<and> not_found c v m q \<longrightarrow> log404 q \<in> set es"
    by blast
  from xs es have "st' = (fst st @ xs, add_logs es (snd st))"
    by (cases st') simp
  with tr r xs es show ?thesis by blast
qed


lemma ListSecrets_traverse:
  assumes g: "fst (GetSourceMountVersion (Some c) cmd t) = Returns (v, None)"
  shows "\<exists>es. ListSecrets n (Some c) cmd t =
     (case traverse n c (source_mount cmd) v [] ([], add_logs es t) of
        None \<Rightarrow> None
      | Some (Panics, (secretsList, t3)) \<Rightarrow> Some (Panics, t3)
      | Some (Exits k, (secretsList, t3)) \<Rightarrow> Some (Exits k, t3)
      | Some (Returns (Some err), (secretsList, t3)) \<Rightarrow> Some (Returns ([], Some err), t3)
      | Some (Returns None, (secretsList, t3)) \<Rightarrow> Some (Returns (secretsList, None), t3))"
proof -
  obtain r0 es where g0: "\<And>u. GetSourceMountVersion (Some c) cmd u = (r0, add_logs es u)"
    using GetSourceMountVersion_trace [of "Some c" cmd] by blast
  with g have r0: "r0 = Returns (v, None)" by simp
  show ?thesis
    by (rule exI [of _ es]) (simp add: ListSecrets_def g0 r0 Let_def)
qed

lemma ListSecrets_total_ok:
  assumes g: "fst (GetSourceMountVersion (Some c) cmd t) = Returns (v, None)"
    and v: "v = ''1'' \<or> v = ''2''"
    and d: "depth_within d c v (source_mount cmd) []"
    and fine: "\<forall>q. reach c v (source_mount cmd) [] q \<longrightarrow>
        \<not> nil_listing c v (source_mount cmd) q \<and>
        (\<forall>e. \<not> listing_failed c v (source_mount cmd) q e)"
  shows "\<exists>paths t'. ListSecrets (Suc d + k) (Some c) cmd t = Some (Returns (paths, None), t') \<and>
      set paths = leaves c v (source_mount cmd) []"
proof -
  from ListSecrets_traverse [OF g, of "Suc d + k"] obtain es where
    ls: "ListSecrets (Suc d + k) (Some c) cmd t =
     (case traverse (Suc d + k) c (source_mount cmd) v [] ([], add_logs es t) of
        None \<Rightarrow> None
      | Some (Panics, (secretsList, t3)) \<Rightarrow> Some (Panics, t3)
      | Some (Exits k, (secretsList, t3)) \<Rightarrow> Some (Exits k, t3)
      | Some (Returns (Some err), (secretsList, t3)) \<Rightarrow> Some (Returns ([], Some err), t3)
      | Some (Returns None, (secretsList, t3)) \<Rightarrow> Some (Returns (secretsList, None), t3))"
    by blast
  from traverse_total_ok [OF v d fine, of k "([], add_logs es t)"] obtain xs es' where
    "traverse (Suc d + k) c (source_mount cmd) v [] ([], add_logs es t) =
        Some (Returns None, (xs, add_logs es' (add_logs es t)))"
    "set xs = leaves c v (source_mount cmd) []"
    by auto
  with ls show ?thesis by simp
qed


text \<open>
  Claim C7. On a mount of version 1 or 2 whose namespaces nest at most \<open>d\<close> levels deep
  and whose listings all succeed or answer 404, a traversal with a recursion bound above
  \<open>d\<close> ends without error and has appended to \<open>secretsList\<close> exactly the leaves under its
  starting prefix: for every prefix \<open>p\<close> it visits and every key without a trailing slash
  listed under \<open>p\<close>, the path \<open>path.Join(sourceMount, path.Join(p, key))\<close>, and nothing
  else; \<open>ListSecrets\<close> then returns these paths. A key ending in a slash adds no path of
  its own: it is recursed into, with the prefix \<open>path.Join(p, key)\<close>, and contributes what
  that traversal finds. More generally, whenever a traversal ends without error it has
  appended exactly the leaves, and a run that ends within one recursion bound ends the
  same way within any larger one. Traversing the mount \<open>secrets/\<close> that holds the keys \<open>x\<close>
  and \<open>y/\<close>, with \<open>z\<close> under \<open>y\<close>, returns \<open>secrets/x\<close> and \<open>secrets/y/z\<close> for every
  recursion bound of at least 2, on a version-2 and on a version-1 mount.
\<close>

theorem traverse_collects_leaves:
  "((v = ''1'' \<or> v = ''2'') \<and> depth_within d c v m cur \<and>
    (\<forall>q. reach c v m cur q \<longrightarrow>
       \<not> nil_listing c v m q \<and> (\<forall>e. \<not> listing_failed c v m q e)) \<longrightarrow>
      (\<exists>xs es. traverse (Suc d + k) c m v cur st =
                  Some (Returns None, (fst st @ xs, add_logs es (snd st))) \<and>
         set xs = leaves c v m cur)) \<and>
   (fst (GetSourceMountVersion (Some c) cmd t) = Returns (v, None) \<and>
    (v = ''1'' \<or> v = ''2'') \<and> depth_within d c v (source_mount cmd) [] \<and>
    (\<forall>q. reach c v (source_mount cmd) [] q \<longrightarrow>
       \<not> nil_listing c v (source_mount cmd) q \<and>
       (\<forall>e. \<not> listing_failed c v (source_mount cmd) q e)) \<longrightarrow>
      (\<exists>paths t'. ListSecrets (Suc d + k) (Some c) cmd t = Some (Returns (paths, None), t') \<and>
         set paths = leaves c v (source_mount cmd) [])) \<and>
   ((v = ''1'' \<or> v = ''2'') \<and> traverse n c m v cur st = Some (Returns None, st') \<longrightarrow>
      (\<exists>xs. fst st' = fst st @ xs \<and> set xs = leaves c v m cur)) \<and>
   (ListKeys c v m cur = (Some keys, None) \<longrightarrow>
      leaves c v m cur =
        (\<Union>key \<in> set keys.
           if HasSuffix key ''/'' then leaves c v m (Join [cur, key])
           else {Join [m, Join [cur, key]]})) \<and>
   (traverse n c m v cur st = Some x \<longrightarrow> traverse (Suc n) c m v cur st = Some x) \<and>
   (ListSecrets n (Some c) cmd t = Some (Returns (paths, None), t') \<longrightarrow>
      (\<exists>v. (v = ''1'' \<or> v = ''2'') \<and>
         fst (GetSourceMountVersion (Some c) cmd t) = Returns (v, None) \<and>
         set paths = leaves c v (source_mount cmd) [])) \<and>
   ListSecrets (Suc (Suc fuel))
     (Some (table_client [kv_mount ''secrets/'' ''2'']
              [([], [''x'', ''y/'']), (''y'', [''z''])] []))
     (copy_cmd ''secrets/'' ''backup'') t0 =
     Some (Returns ([''secrets/x'', ''secrets/y/z''], None), t0) \<and>
   ListSecrets (Suc (Suc fuel))
     (Some (table_client [kv_mount ''secrets/'' ''1'']
              [([], [''x'', ''y/'']), (''y'', [''z''])] []))
     (copy_cmd ''secrets/'' ''backup'') t0 =
     Some (Returns ([''secrets/x'', ''secrets/y/z''], None), t0)"
proof (intro conjI impI)
  assume a: "(v = ''1'' \<or> v = ''2'') \<and> depth_within d c v m cur \<and>
    (\<forall>q. reach c v m cur q \<longrightarrow>
       \<not> nil_listing c v m q \<and> (\<forall>e. \<not> listing_failed c v m q e))"
  then have "\<exists>xs es. traverse (Suc d + k) c m v cur st =
        Some (Returns None, (fst st @ xs, add_logs es (snd st))) \<and>
      set xs = leaves c v m cur \<and>
      (\<forall>q. reach c v m cur q \<and> not_found c v m q \<longrightarrow> log404 q \<in> set es)"
    by (intro traverse_total_ok) simp_all
  then show "\<exists>xs es. traverse (Suc d + k) c m v cur st =
                  Some (Returns None, (fst st @ xs, add_logs es (snd st))) \<and>
         set xs = leaves c v m cur"
    by blast
next
  assume a: "fst (GetSourceMountVersion (Some c) cmd t) = Returns (v, None) \<and>
    (v = ''1'' \<or> v = ''2'') \<and> depth_within d c v (source_mount cmd) [] \<and>
    (\<forall>q. reach c v (source_mount cmd) [] q \<longrightarrow>
       \<not> nil_listing c v (source_mount cmd) q \<and>
       (\<forall>e. \<not> listing_failed c v (source_mount cmd) q e))"
  then show "\<exists>paths t'. ListSecrets (Suc d + k) (Some c) cmd t = Some (Returns (paths, None), t') \<and>
         set paths = leaves c v (source_mount cmd) []"
    by (intro ListSecrets_total_ok) simp_all
next
  assume "(v = ''1'' \<or> v = ''2'') \<and> traverse n c m v cur st = Some (Returns None, st')"
  then show "\<exists>xs. fst st' = fst st @ xs \<and> set xs = leaves c v m cur"
    using traverse_leaves [of v n c m cur st "Returns None" st'] by blast
next
  assume "ListKeys c v m cur = (Some keys, None)"
  then show "leaves c v m cur =
        (\<Union>key \<in> set keys.
           if HasSuffix key ''/'' then leaves c v m (Join [cur, key])
           else {Join [m, Join [cur, key]]})"
    by (simp add: leaves_listed keys_leaves_def)
next
  assume "traverse n c m v cur st = Some x"
  then show "traverse (Suc n) c m v cur st = Some x"
    by (rule traverse_more_fuel)
next
  assume "ListSecrets n (Some c) cmd t = Some (Returns (paths, None), t')"
  then show "\<exists>v. (v = ''1'' \<or> v = ''2'') \<and>
         fst (GetSourceMountVersion (Some c) cmd t) = Returns (v, None) \<and>
         set paths = leaves c v (source_mount cmd) []"
    by (rule ListSecrets_paths)
next
  show "ListSecrets (Suc (Suc fuel))
     (Some (table_client [kv_mount ''secrets/'' ''2'']
              [([], [''x'', ''y/'']), (''y'', [''z''])] []))
     (copy_cmd ''secrets/'' ''backup'') t0 =
     Some (Returns ([''secrets/x'', ''secrets/y/z''], None), t0)"
    by (simp add: run_defs)
next
  show "ListSecrets (Suc (Suc fuel))
     (Some (table_client [kv_mount ''secrets/'' ''1'']
              [([], [''x'', ''y/'']), (''y'', [''z''])] []))
     (copy_cmd ''secrets/'' ''backup'') t0 =
     Some (Returns ([''secrets/x'', ''secrets/y/z''], None), t0)"
    by (simp add: run_defs)
qed

theorem traverse_collects_leaves_witness:
  "depth_within (Suc 0)
     (table_client [kv_mount ''secrets/'' ''1''] [([], [''x'', ''y/'']), (''y'', [''z''])] [])
     ''1'' ''secrets/'' [] \<and>
   (\<exists>xs es. traverse (Suc (Suc 0) + 1)
       (table_client [kv_mount ''secrets/'' ''1''] [([], [''x'', ''y/'']), (''y'', [''z''])] [])
       ''secrets/'' ''1'' [] ([], t0) =
       Some (Returns None, (fst (([] :: string list), t0) @ xs,
                            add_logs es (snd (([] :: string list), t0)))) \<and>
      set xs =
        leaves (table_client [kv_mount ''secrets/'' ''1'']
                  [([], [''x'', ''y/'']), (''y'', [''z''])] []) ''1'' ''secrets/'' []) \<and>
   (\<exists>paths t'. ListSecrets (Suc (Suc 0) + 1)
       (Some (table_client [kv_mount ''secrets/'' ''1'']
                [([], [''x'', ''y/'']), (''y'', [''z''])] []))
       (copy_cmd ''secrets/'' ''backup'') t0 = Some (Returns (paths, None), t') \<and>
      set paths =
        leaves (table_client [kv_mount ''secrets/'' ''1'']
                  [([], [''x'', ''y/'']), (''y'', [''z''])] []) ''1''
          (source_mount (copy_cmd ''secrets/'' ''backup'')) []) \<and>
   traverse 2
     (table_client [kv_mount ''secrets/'' ''2''] [([], [''x'', ''y/'']), (''y'', [''z''])] [])
     ''secrets/'' ''2'' [] ([], t0) = Some (Returns None, ([''secrets/x'', ''secrets/y/z''], t0)) \<and>
   traverse 3
     (table_client [kv_mount ''secrets/'' ''2''] [([], [''x'', ''y/'']), (''y'', [''z''])] [])
     ''secrets/'' ''2'' [] ([], t0) = Some (Returns None, ([''secrets/x'', ''secrets/y/z''], t0)) \<and>
   {''secrets/x'', ''secrets/y/z''} =
     leaves (table_client [kv_mount ''secrets/'' ''2'']
               [([], [''x'', ''y/'']), (''y'', [''z''])] []) ''2'' ''secrets/'' [] \<and>
   leaves (table_client [kv_mount ''secrets/'' ''2'']
             [([], [''x'', ''y/'']), (''y'', [''z''])] []) ''2'' ''secrets/'' ''y'' =
     {''secrets/y/z''} \<and>
   ListSecrets 2
     (Some (table_client [kv_mount ''secrets/'' ''2'']
              [([], [''x'', ''y/'']), (''y'', [''z''])] []))
     (copy_cmd ''secrets/'' ''backup'') t0 =
     Some (Returns ([''secrets/x'', ''secrets/y/z''], None), t0) \<and>
   (\<exists>v. (v = ''1'' \<or> v = ''2'') \<and>
      fst (GetSourceMountVersion
             (Some (table_client [kv_mount ''secrets/'' ''2'']
                      [([], [''x'', ''y/'']), (''y'', [''z''])] []))
             (copy_cmd ''secrets/'' ''backup'') t0) = Returns (v, None) \<and>
      set [''secrets/x'', ''secrets/y/z''] =
        leaves (table_client [kv_mount ''secrets/'' ''2'']
                  [([], [''x'', ''y/'']), (''y'', [''z''])] []) v
          (source_mount (copy_cmd ''secrets/'' ''backup'')) [])"
proof -
  let ?c = "table_client [kv_mount ''secrets/'' ''2''] [([], [''x'', ''y/'']), (''y'', [''z''])] []"
  let ?c1 = "table_client [kv_mount ''secrets/'' ''1''] [([], [''x'', ''y/'']), (''y'', [''z''])] []"
  note th = traverse_collects_leaves
  have two: "(2::nat) = Suc (Suc 0)" by simp
  have three: "(3::nat) = Suc 2" by simp
  have v: "''2'' = ''1'' \<or> ''2'' = ''2''" by simp
  have v1: "''1'' = ''1'' \<or> ''1'' = ''2''" by simp
  have dw: "depth_within (Suc 0) ?c1 ''1'' ''secrets/'' []"
    by (simp add: ListKeys_def table_client_def HasSuffix_def suffix_to_prefix Join_def Clean_def)
  have fine: "\<forall>q. reach ?c1 ''1'' ''secrets/'' [] q \<longrightarrow>
      \<not> nil_listing ?c1 ''1'' ''secrets/'' q \<and>
      (\<forall>e. \<not> listing_failed ?c1 ''1'' ''secrets/'' q e)"
    by (simp add: nil_listing_def listing_failed_def ListKeys_def table_client_def
        split: option.splits)
  have sm: "source_mount (copy_cmd ''secrets/'' ''backup'') = ''secrets/''"
    by (simp add: copy_cmd_def)
  have gs: "fst (GetSourceMountVersion (Some ?c1) (copy_cmd ''secrets/'' ''backup'') t0) =
      Returns (''1'', None)"
    by (simp add: run_defs)
  have dw': "depth_within (Suc 0) ?c1 ''1'' (source_mount (copy_cmd ''secrets/'' ''backup'')) []"
    using dw by (simp only: sm)
  have fine': "\<forall>q. reach ?c1 ''1'' (source_mount (copy_cmd ''secrets/'' ''backup'')) [] q \<longrightarrow>
      \<not> nil_listing ?c1 ''1'' (source_mount (copy_cmd ''secrets/'' ''backup'')) q \<and>
      (\<forall>e. \<not> listing_failed ?c1 ''1'' (source_mount (copy_cmd ''secrets/'' ''backup'')) q e)"
    using fine by (simp only: sm)
  note t1 = th [where v = "''1''" and d = "Suc 0" and c = ?c1 and m = "''secrets/''"
      and cur = "[]" and k = 1 and st = "([], t0)",
      THEN conjunct1, THEN mp, OF conjI [OF v1 conjI [OF dw fine]]]
  note t2 = th [where v = "''1''" and d = "Suc 0" and c = ?c1
      and cmd = "copy_cmd ''secrets/'' ''backup''" and k = 1 and t = t0,
      THEN conjunct2, THEN conjunct1, THEN mp,
      OF conjI [OF gs conjI [OF v1 conjI [OF dw' fine']]]]
  have run: "ListSecrets 2 (Some ?c) (copy_cmd ''secrets/'' ''backup'') t0 =
     Some (Returns ([''secrets/x'', ''secrets/y/z''], None), t0)"
    unfolding two by (simp add: run_defs)
  have tr: "traverse 2 ?c ''secrets/'' ''2'' [] ([], t0) =
      Some (Returns None, ([''secrets/x'', ''secrets/y/z''], t0))"
    unfolding two by (simp add: run_defs)
  have tr3: "traverse 3 ?c ''secrets/'' ''2'' [] ([], t0) =
      Some (Returns None, ([''secrets/x'', ''secrets/y/z''], t0))"
    unfolding three
    by (rule th [where n = 2, THEN conjunct2, THEN conjunct2, THEN conjunct2, THEN conjunct2,
          THEN conjunct1, THEN mp])
       (rule tr)
  from th [where v = "''2''" and n = 2 and c = ?c and m = "''secrets/''" and cur = "[]"
      and st = "([], t0)" and st' = "([''secrets/x'', ''secrets/y/z''], t0)",
      THEN conjunct2, THEN conjunct2, THEN conjunct1, THEN mp, OF conjI, OF v tr]
  have lv: "{''secrets/x'', ''secrets/y/z''} = leaves ?c ''2'' ''secrets/'' []"
    by auto
  have ly: "ListKeys ?c ''2'' ''secrets/'' ''y'' = (Some [''z''], None)"
    by (simp add: ListKeys_def table_client_def)
  from th [where v = "''2''" and c = ?c and m = "''secrets/''" and cur = "''y''"
      and keys = "[''z'']", THEN conjunct2, THEN conjunct2, THEN conjunct2, THEN conjunct1,
      THEN mp, OF ly]
  have l2: "leaves ?c ''2'' ''secrets/'' ''y'' = {''secrets/y/z''}"
    by (simp add: HasSuffix_def suffix_to_prefix Join_def Clean_def)
  note ls = th [where c = ?c and n = 2 and cmd = "copy_cmd ''secrets/'' ''backup''" and t = t0
      and paths = "[''secrets/x'', ''secrets/y/z'']" and t' = t0,
      THEN conjunct2, THEN conjunct2, THEN conjunct2, THEN conjunct2, THEN conjunct2,
      THEN conjunct1, THEN mp, OF run]
  show ?thesis by (intro conjI dw t1 t2 tr tr3 lv l2 run ls)
qed




end
